theory Spec2Isabelle
  imports Complex_Main "HOL-Library.Multiset"
begin

section \<open>MCAST scan-and-score pipeline (src/src/mcast.c)\<close>

subsection \<open>C doubles\<close>

text \<open>
  A C \<^verbatim>\<open>double\<close> is either NaN or a number. Comparisons follow IEEE-754: every
  ordered comparison with a NaN operand is false. Arithmetic is idealised (real
  arithmetic, NaN propagating); rounding and infinities are not modelled, and a
  division by zero, which yields an infinity or NaN in C, is collapsed to NaN.
\<close>

datatype double = NaN | Num real

fun dlt :: "double \<Rightarrow> double \<Rightarrow> bool" where
  "dlt (Num a) (Num b) = (a < b)"
| "dlt _ _ = False"

fun dgt :: "double \<Rightarrow> double \<Rightarrow> bool" where
  "dgt (Num a) (Num b) = (a > b)"
| "dgt _ _ = False"

fun dge :: "double \<Rightarrow> double \<Rightarrow> bool" where
  "dge (Num a) (Num b) = (a \<ge> b)"
| "dge _ _ = False"

fun isnan :: "double \<Rightarrow> bool" where
  "isnan NaN = True"
| "isnan (Num a) = False"

fun dadd :: "double \<Rightarrow> double \<Rightarrow> double" where
  "dadd (Num a) (Num b) = Num (a + b)"
| "dadd _ _ = NaN"

fun dsub :: "double \<Rightarrow> double \<Rightarrow> double" where
  "dsub (Num a) (Num b) = Num (a - b)"
| "dsub _ _ = NaN"

fun dmul :: "double \<Rightarrow> double \<Rightarrow> double" where
  "dmul (Num a) (Num b) = Num (a * b)"
| "dmul _ _ = NaN"

fun ddiv :: "double \<Rightarrow> double \<Rightarrow> double" where
  "ddiv (Num a) (Num b) = (if b = 0 then NaN else Num (a / b))"
| "ddiv _ _ = NaN"

definition of_c_int :: "int \<Rightarrow> double" where
  "of_c_int i = Num (of_int i)"

subsection \<open>C ints\<close>

text \<open>
  The counters that the scan increments (\<^verbatim>\<open>num_scores_seen\<close>, \<^verbatim>\<open>num_matches\<close>) are
  C \<^verbatim>\<open>int\<close>s of 32 bits. They are kept as integers, and an increment reduces its
  result to 32 bits in two's complement (\<open>c_int\<close>): past \<open>2^31 - 1\<close> the counter
  wraps to \<open>- 2^31\<close>, as the compiled increment does (in C itself the overflow is
  undefined). The conversion of a double to \<^verbatim>\<open>int\<close> truncates towards zero.
\<close>

definition c_int :: "int \<Rightarrow> int" where
  "c_int i = (i + 2147483648) mod 4294967296 - 2147483648"

definition double_to_int :: "real \<Rightarrow> int" where
  "double_to_int x = (if 0 \<le> x then \<lfloor>x\<rfloor> else \<lceil>x\<rceil>)"

text \<open>
  The write \<^verbatim>\<open>a[i] = v\<close> to an array. An index outside the array writes memory that
  is not part of the array (undefined in C): the array keeps its contents.
\<close>

definition array_store :: "'a list \<Rightarrow> int \<Rightarrow> 'a \<Rightarrow> 'a list" where
  "array_store a i v = (if 0 \<le> i \<and> i < int (length a) then a[nat i := v] else a)"

subsection \<open>Match records (MCAST\_MATCH\_T)\<close>

text \<open>
  The fields written by \<^verbatim>\<open>mcast_read_and_score\<close>, \<^verbatim>\<open>calc_init_distr\<close> and
  \<^verbatim>\<open>calc_pq_values\<close>. The character payload of a match (matched sequence, flanks,
  motif hits) is not modelled: no statistic reads it.
\<close>

record mcast_match =
  seq_name :: string
  seq_length :: int
  seq_start :: int
  score :: double
  pvalue :: double
  evalue :: double
  qvalue :: double
  gc :: double
  gc_bin :: int
  start :: int
  stop :: int

subsection \<open>The match heap (heap.h)\<close>

text \<open>
  Modelled from the spec: \<^verbatim>\<open>heap.c\<close> and \<^verbatim>\<open>compare_mcast_matches\<close> are not under
  src/. The spec describes a bounded-capacity max-heap of match records, worst
  p-value at the root, NaN sorting as most significant, with \<open>size \<le> capacity\<close>
  always. The model keeps the nodes in the order in which \<^verbatim>\<open>pop_heap_root\<close> would
  return them (root first). \<open>sig_le a b\<close> reads "\<open>a\<close> is at least as significant as
  \<open>b\<close>".
\<close>

fun sig_le :: "double \<Rightarrow> double \<Rightarrow> bool" where
  "sig_le NaN b = True"
| "sig_le (Num a) NaN = False"
| "sig_le (Num a) (Num b) = (a \<le> b)"

text \<open>Modelled from the spec: the type HEAP of heap.h, a capacity and the nodes, root first.\<close>

record heap =
  max_size :: nat
  node_list :: "mcast_match list"

text \<open>Modelled from the spec: \<^verbatim>\<open>create_heap\<close> (heap.c), an empty heap of the given capacity.\<close>

definition create_heap :: "nat \<Rightarrow> heap" where
  "create_heap k = \<lparr>max_size = k, node_list = []\<rparr>"

text \<open>Modelled from the spec: \<^verbatim>\<open>get_num_nodes\<close> (heap.c), the number of nodes held.\<close>

definition get_num_nodes :: "heap \<Rightarrow> nat" where
  "get_num_nodes h = length (node_list h)"

text \<open>Modelled from the spec: \<^verbatim>\<open>get_max_size\<close> (heap.c), the capacity.\<close>

definition get_max_size :: "heap \<Rightarrow> nat" where
  "get_max_size h = max_size h"

text \<open>
  Modelled from the spec: \<^verbatim>\<open>get_node(heap, 1)\<close> (heap.c), the root, NULL (\<open>None\<close>) on an
  empty heap.
\<close>

definition get_root :: "heap \<Rightarrow> mcast_match option" where
  "get_root h = (case node_list h of [] \<Rightarrow> None | r # rs \<Rightarrow> Some r)"

text \<open>
  Modelled from the spec: \<^verbatim>\<open>pop_heap_root\<close> (heap.c) removes and returns the root, the
  least significant node; NULL (\<open>None\<close>) on an empty heap.
\<close>

definition pop_heap_root :: "heap \<Rightarrow> mcast_match option \<times> heap" where
  "pop_heap_root h =
     (case node_list h of
        [] \<Rightarrow> (None, h)
      | r # rs \<Rightarrow> (Some r, h\<lparr>node_list := rs\<rparr>))"

text \<open>
  Modelled from the spec: the place a new node takes among the nodes in the order
  of \<^verbatim>\<open>compare_mcast_matches\<close>, behind the nodes that are not more significant than it.
\<close>

fun heap_place :: "mcast_match \<Rightarrow> mcast_match list \<Rightarrow> mcast_match list" where
  "heap_place r [] = [r]"
| "heap_place r (x # xs) =
     (if sig_le (pvalue r) (pvalue x) then x # heap_place r xs else r # x # xs)"

text \<open>
  Modelled from the spec: \<^verbatim>\<open>add_node_heap\<close> (heap.c). A full heap keeps its size: the
  weakest of the old nodes and the new one is dropped.
\<close>

definition add_node_heap :: "heap \<Rightarrow> mcast_match \<Rightarrow> heap" where
  "add_node_heap h r =
     (if length (node_list h) < max_size h
      then h\<lparr>node_list := heap_place r (node_list h)\<rparr>
      else h\<lparr>node_list := tl (heap_place r (node_list h))\<rparr>)"

text \<open>The heap order: every node is at least as significant as the nodes before it.\<close>

definition heap_ordered :: "mcast_match list \<Rightarrow> bool" where
  "heap_ordered xs = sorted_wrt (\<lambda>a b. sig_le (pvalue b) (pvalue a)) xs"

subsection \<open>purge\_match\_heap\<close>

text \<open>
  The \<^verbatim>\<open>for\<close> loop of \<^verbatim>\<open>purge_match_heap\<close>; the first argument is
  \<^verbatim>\<open>num_matches_to_delete - deletion_count\<close>. The list of freed records stands for the
  calls of \<^verbatim>\<open>free_mcast_match\<close>. \<open>None\<close> is the read of a NULL victim.
\<close>

fun purge_delete ::
  "nat \<Rightarrow> heap \<Rightarrow> mcast_match list \<Rightarrow> double \<Rightarrow> (heap \<times> mcast_match list \<times> double) option" where
  "purge_delete 0 h freed min_pvalue_discarded = Some (h, freed, min_pvalue_discarded)"
| "purge_delete (Suc k) h freed min_pvalue_discarded =
     (case pop_heap_root h of
        (None, h') \<Rightarrow> None
      | (Some victim, h') \<Rightarrow> purge_delete k h' (freed @ [victim]) (pvalue victim))"

text \<open>The \<^verbatim>\<open>while\<close> loop: arguments are the heap, the freed records,
  \<^verbatim>\<open>max_pvalue_retained\<close> and \<^verbatim>\<open>min_pvalue_discarded\<close>.\<close>

function purge_while ::
  "heap \<Rightarrow> mcast_match list \<Rightarrow> double \<Rightarrow> double \<Rightarrow> heap \<times> mcast_match list" where
  "purge_while h freed max_pvalue_retained min_pvalue_discarded =
     (if dge max_pvalue_retained min_pvalue_discarded then
        (case pop_heap_root h of
           (None, h') \<Rightarrow> (h', freed)
         | (Some victim, h') \<Rightarrow>
             (case get_root h' of
                None \<Rightarrow> (h', freed @ [victim])
              | Some v \<Rightarrow> purge_while h' (freed @ [victim]) (pvalue v) min_pvalue_discarded))
      else (h, freed))"
  by pat_completeness auto
termination
  by (relation "measure (\<lambda>(h, freed, a, b). length (node_list h))")
     (auto simp: pop_heap_root_def split: list.splits)

definition purge_match_heap :: "heap \<Rightarrow> (mcast_match list \<times> heap \<times> double) option" where
  "purge_match_heap match_heap =
     (let num_matches_to_delete = get_num_nodes match_heap div 2 in
      case purge_delete num_matches_to_delete match_heap [] (Num 1) of
        None \<Rightarrow> None
      | Some (h, freed, min_pvalue_discarded) \<Rightarrow>
          (case get_root h of
             None \<Rightarrow> Some (freed, h, min_pvalue_discarded)
           | Some v \<Rightarrow>
               (case purge_while h freed (pvalue v) min_pvalue_discarded of
                  (h', freed') \<Rightarrow> Some (freed', h', min_pvalue_discarded))))"


subsection \<open>Score sets, EVD sets and the functions that are not under src/\<close>

text \<open>
  One reservoir slot (\<^verbatim>\<open>SCORE\<close>) and the score set (\<^verbatim>\<open>SCORE_SET\<close>). The array
  \<^verbatim>\<open>scores\<close> has \<^verbatim>\<open>max_scores_saved\<close> slots (\<^verbatim>\<open>mm_resize\<close> in \<^verbatim>\<open>mcast\<close>).
  \<^verbatim>\<open>num_scores_seen\<close> is incremented at every recorded score and is an \<^verbatim>\<open>int\<close> that
  can overflow. \<^verbatim>\<open>n\<close> is incremented only below \<^verbatim>\<open>max_scores_saved\<close>, which is
  the option \<^verbatim>\<open>max_stored_scores\<close> (not negative): the two stay between 0 and that
  option and are naturals.
\<close>

record score_entry =
  sc_s :: double
  sc_t :: int
  sc_nhits :: int
  sc_span :: int
  sc_gc :: double
  sc_serial_no :: double

record score_set =
  scores :: "score_entry list"
  ss_n :: nat
  max_scores_saved :: nat
  num_scores_seen :: int
  max_t :: int
  total_length :: int

datatype evd = EVD "double list"

record evd_set =
  evd_n :: int
  evd_N :: int
  outliers :: int
  min_e :: double
  sum_log_e :: double
  evds :: "evd list"

text \<open>
  The Mersenne twister state: the outputs \<^verbatim>\<open>mts_drand\<close> will return (each in
  \<open>[0, 1)\<close>) and how many have been drawn.
\<close>

record mt_state =
  mt_out :: "nat \<Rightarrow> real"
  mt_pos :: nat

definition mts_drand :: "mt_state \<Rightarrow> real \<times> mt_state" where
  "mts_drand prng = (mt_out prng (mt_pos prng), prng\<lparr>mt_pos := Suc (mt_pos prng)\<rparr>)"

text \<open>
  Constants and functions of the repository that \<^verbatim>\<open>mcast.c\<close> uses and that are not
  under src/; they are parameters of the model: the macros \<^verbatim>\<open>LOG_SMALL\<close>,
  \<^verbatim>\<open>OVERLAP_SIZE\<close> and \<^verbatim>\<open>BIG\<close>, the EVD fitter (\<^verbatim>\<open>calc_distr\<close>, \<^verbatim>\<open>evd_set_bin\<close>,
  \<^verbatim>\<open>evd_set_pvalue\<close>), the record returned by \<^verbatim>\<open>allocate_mcast_match\<close>, the array
  sort, \<^verbatim>\<open>qsort\<close> with \<^verbatim>\<open>compare_mcast_match_pvalues\<close>, \<^verbatim>\<open>compute_qvalues\<close> (the
  contents of its p-value array after the call, by index) and the EVD set that
  \<^verbatim>\<open>mcast_generate_synth_seq\<close> fits to the scores of its generated sequences.
\<close>

record env =
  LOG_SMALL :: double
  OVERLAP_SIZE :: int
  BIG :: double
  calc_distr :: "score_set \<Rightarrow> evd_set"
  evd_set_bin :: "double \<Rightarrow> evd_set \<Rightarrow> int"
  evd_set_pvalue :: "double \<Rightarrow> double \<Rightarrow> int \<Rightarrow> evd_set \<Rightarrow> double"
  allocate_mcast_match :: mcast_match
  sort_array :: "double list \<Rightarrow> double list"
  qsort_matches :: "mcast_match option list \<Rightarrow> mcast_match option list"
  compute_qvalues :: "int \<Rightarrow> double list \<Rightarrow> double list \<Rightarrow> nat \<Rightarrow> double"
  synth_calc_distr :: "score_set \<Rightarrow> mt_state \<Rightarrow> evd_set"

definition IGNORE_QUERY_LENGTH :: int where
  "IGNORE_QUERY_LENGTH = 1"

subsection \<open>calc\_init\_distr\<close>

text \<open>The body of the first loop of \<^verbatim>\<open>calc_init_distr\<close> for one popped match.\<close>

definition rescore_match :: "env \<Rightarrow> evd_set \<Rightarrow> double \<Rightarrow> mcast_match \<Rightarrow> mcast_match" where
  "rescore_match e evd_set dp_threshold m =
     (let score' = dsub (score m) dp_threshold;
          gc' = gc m;
          gc_bin' = evd_set_bin e gc' evd_set;
          pvalue' = evd_set_pvalue e score' gc' IGNORE_QUERY_LENGTH evd_set
      in m\<lparr>gc_bin := gc_bin', pvalue := pvalue'\<rparr>)"

text \<open>The first loop; the first argument is \<^verbatim>\<open>num_matches - i\<close>, the list is the array
  \<^verbatim>\<open>mcast_matches\<close> filled so far. \<open>None\<close> is the read of a NULL match.\<close>

fun rescore_loop ::
  "env \<Rightarrow> evd_set \<Rightarrow> double \<Rightarrow> nat \<Rightarrow> heap \<Rightarrow> mcast_match list \<Rightarrow> (heap \<times> mcast_match list) option" where
  "rescore_loop e evd_set dp_threshold 0 h mcast_matches = Some (h, mcast_matches)"
| "rescore_loop e evd_set dp_threshold (Suc k) h mcast_matches =
     (case pop_heap_root h of
        (None, h') \<Rightarrow> None
      | (Some m, h') \<Rightarrow>
          rescore_loop e evd_set dp_threshold k h' (mcast_matches @ [rescore_match e evd_set dp_threshold m]))"

text \<open>The second loop: put the matches back on the heap.\<close>

fun reinsert_loop :: "heap \<Rightarrow> mcast_match list \<Rightarrow> heap" where
  "reinsert_loop h [] = h"
| "reinsert_loop h (m # ms) = reinsert_loop (add_node_heap h m) ms"

text \<open>Returns the new \<^verbatim>\<open>*evd_set\<close>, the heap and the flag \<^verbatim>\<open>got_init_evd\<close>.\<close>

definition calc_init_distr ::
  "env \<Rightarrow> score_set \<Rightarrow> heap \<Rightarrow> double \<Rightarrow> (evd_set \<times> heap \<times> bool) option" where
  "calc_init_distr e score_set mcast_match_heap dp_threshold =
     (let evd_set = calc_distr e score_set;
          got_init_evd = (evd_n evd_set > 0)
      in if got_init_evd then
           (case rescore_loop e evd_set dp_threshold (get_num_nodes mcast_match_heap)
                   mcast_match_heap [] of
              None \<Rightarrow> None
            | Some (h, mcast_matches) \<Rightarrow> Some (evd_set, reinsert_loop h mcast_matches, got_init_evd))
         else Some (evd_set, mcast_match_heap, got_init_evd))"

subsection \<open>mcast\_read\_and\_score\<close>

text \<open>
  The sequence segment being scanned, as the loop body reads it: \<^verbatim>\<open>is_complete\<close>,
  \<^verbatim>\<open>get_seq_length\<close>, \<^verbatim>\<open>get_seq_offset\<close>, \<^verbatim>\<open>get_seq_name\<close>, \<^verbatim>\<open>get_seq_gc\<close>, and
  \<^verbatim>\<open>get_seq_length\<close> after \<^verbatim>\<open>remove_flanking_xs\<close>. Positions and lengths are kept as
  mathematical integers.
\<close>

record window =
  is_complete_seq :: bool
  w_seq_length :: int
  w_seq_offset :: int
  w_seq_name :: string
  get_seq_gc :: "int \<Rightarrow> double"
  w_trimmed_length :: int

text \<open>The match that \<^verbatim>\<open>find_next_match\<close> leaves in \<^verbatim>\<open>partial_match\<close>.\<close>

record raw_match =
  get_start_match :: int
  get_end_match :: int
  get_score :: double
  get_match_seq_length :: int
  get_nhits :: int

text \<open>Lines written to stderr by the scan that the claims refer to.\<close>

datatype log_line = Initial_distribution_calculation | Smallest_pvalue_discarded double

text \<open>
  The variables of \<^verbatim>\<open>mcast_read_and_score\<close> that live across matches. \<open>freed\<close>
  collects the records passed to \<^verbatim>\<open>free_mcast_match\<close>; the heap is \<open>None\<close> when the
  caller passes NULL (synthetic sequences).
\<close>

record scan_state =
  start_pos :: int
  min_pvalue_discarded :: double
  got_init_evd :: bool
  mcast_match_heap :: "heap option"
  the_score_set :: score_set
  initial_evd_set :: evd_set
  serial_no :: double
  prng :: mt_state
  num_matches :: int
  freed :: "mcast_match list"
  stderr :: "log_line list"

datatype loop_ctl = Break | Continue

text \<open>
  Lines 849--866: count the score and choose its slot. The result is
  \<^verbatim>\<open>sample_score\<close>, \<^verbatim>\<open>score_index\<close>, the score set and the generator.
\<close>

definition reservoir_slot :: "score_set \<Rightarrow> mt_state \<Rightarrow> bool \<times> int \<times> score_set \<times> mt_state" where
  "reservoir_slot ss0 prng0 =
     (let ss = ss0\<lparr>num_scores_seen := c_int (num_scores_seen ss0 + 1)\<rparr>
      in if ss_n ss < max_scores_saved ss
         then (True, int (ss_n ss), ss\<lparr>ss_n := ss_n ss + 1\<rparr>, prng0)
         else (case mts_drand prng0 of (u, prng') \<Rightarrow>
                 (let score_index = double_to_int (real_of_int (num_scores_seen ss) * u)
                  in (score_index < int (max_scores_saved ss), score_index, ss, prng'))))"

text \<open>
  Lines 847--886: the reservoir update and the GC-content of the match. The result
  is the GC-content and the updated state.
\<close>

definition save_score :: "env \<Rightarrow> window \<Rightarrow> raw_match \<Rightarrow> double \<Rightarrow> scan_state \<Rightarrow> double \<times> scan_state" where
  "save_score e w partial_match viterbi_score st =
     (if dgt viterbi_score (LOG_SMALL e) then
        (case reservoir_slot (the_score_set st) (prng st) of
           (sample_score, score_index, ss, prng') \<Rightarrow>
        (let GC_WIN_SIZE = 500;
             start' = max 0 (get_start_match partial_match - GC_WIN_SIZE);
             end' = min (w_seq_length w - 1) (get_end_match partial_match + GC_WIN_SIZE);
             n = of_c_int (end' - start');
             gc' = ddiv (dsub (get_seq_gc w end') (get_seq_gc w start')) n
         in if sample_score then
              (let length' = get_match_seq_length partial_match;
                   entry = \<lparr>sc_s = viterbi_score, sc_t = length',
                            sc_nhits = get_nhits partial_match,
                            sc_span = get_end_match partial_match - get_start_match partial_match + 1,
                            sc_gc = gc', sc_serial_no = serial_no st\<rparr>;
                   ss = ss\<lparr>scores := array_store (scores ss) score_index entry\<rparr>;
                   ss = (if length' > max_t ss then ss\<lparr>max_t := length'\<rparr> else ss)
               in (gc', st\<lparr>the_score_set := ss, prng := prng',
                            serial_no := dadd (serial_no st) (Num 1)\<rparr>))
            else (gc', st\<lparr>the_score_set := ss, prng := prng'\<rparr>)))
      else (Num 0, st))"

text \<open>Lines 888--901: the provisional fit, attempted while none has succeeded.\<close>

definition init_distr_step :: "env \<Rightarrow> double \<Rightarrow> scan_state \<Rightarrow> scan_state option" where
  "init_distr_step e dp_thresh st =
     (case mcast_match_heap st of
        Some h \<Rightarrow>
          (if ss_n (the_score_set st) \<ge> max_scores_saved (the_score_set st) \<and> got_init_evd st = False
           then (case calc_init_distr e (the_score_set st) h dp_thresh of
                   None \<Rightarrow> None
                 | Some (evd_set, h', got) \<Rightarrow>
                     Some (st\<lparr>stderr := stderr st @ [Initial_distribution_calculation],
                              initial_evd_set := evd_set, mcast_match_heap := Some h',
                              got_init_evd := got\<rparr>))
           else Some st)
      | None \<Rightarrow> Some st)"

text \<open>Lines 903--911: the p-value and GC bin of the new match.\<close>

definition match_pvalue :: "env \<Rightarrow> double \<Rightarrow> double \<Rightarrow> scan_state \<Rightarrow> double \<times> int" where
  "match_pvalue e viterbi_score gc' st =
     (if got_init_evd st = True
      then (evd_set_pvalue e viterbi_score gc' 1 (initial_evd_set st),
            evd_set_bin e gc' (initial_evd_set st))
      else (NaN, -1))"

text \<open>Lines 962--976: the match object built from the setters.\<close>

definition build_mcast_match ::
  "env \<Rightarrow> double \<Rightarrow> window \<Rightarrow> raw_match \<Rightarrow> double \<Rightarrow> double \<Rightarrow> double \<Rightarrow> int \<Rightarrow> mcast_match" where
  "build_mcast_match e dp_thresh w partial_match viterbi_score pvalue' gc' gc_bin' =
     (allocate_mcast_match e)
       \<lparr>seq_name := w_seq_name w,
        seq_length := w_seq_length w - 2,
        seq_start := w_seq_offset w,
        score := dadd viterbi_score dp_thresh,
        pvalue := pvalue',
        gc := gc',
        gc_bin := gc_bin',
        start := w_seq_offset w + get_start_match partial_match - 1,
        stop := w_seq_offset w + get_end_match partial_match - 1\<rparr>"

text \<open>
  Lines 917--1008: save the match if its p-value is below the smallest p-value
  discarded so far or is NaN, and purge when the heap has reached its maximum size.
\<close>

definition save_match :: "mcast_match \<Rightarrow> scan_state \<Rightarrow> scan_state option" where
  "save_match mcast_match st =
     (case mcast_match_heap st of
        None \<Rightarrow> Some st
      | Some h \<Rightarrow>
          (if dlt (pvalue mcast_match) (min_pvalue_discarded st) \<or> isnan (pvalue mcast_match) then
             (let h1 = add_node_heap h mcast_match;
                  num_nodes = get_num_nodes h1;
                  max_nodes = get_max_size h1
              in if num_nodes = max_nodes then
                   (case purge_match_heap h1 of
                      None \<Rightarrow> None
                    | Some (victims, h2, m) \<Rightarrow>
                        Some (st\<lparr>mcast_match_heap := Some h2,
                                 min_pvalue_discarded := m,
                                 freed := freed st @ victims,
                                 stderr := stderr st @ [Smallest_pvalue_discarded m],
                                 num_matches := c_int (num_matches st + 1)\<rparr>))
                 else Some (st\<lparr>mcast_match_heap := Some h1,
                               num_matches := c_int (num_matches st + 1)\<rparr>))
           else Some st))"

text \<open>The body of the loop over \<^verbatim>\<open>find_next_match\<close> (lines 817--1009).\<close>

definition process_match ::
  "env \<Rightarrow> double \<Rightarrow> window \<Rightarrow> raw_match \<Rightarrow> scan_state \<Rightarrow> (loop_ctl \<times> scan_state) option" where
  "process_match e dp_thresh w partial_match st =
     (if \<not> is_complete_seq w \<and> get_start_match partial_match > w_seq_length w - OVERLAP_SIZE e
      then Some (Break, st)
      else if get_start_match partial_match = start_pos st
      then Some (Continue, st\<lparr>start_pos := get_end_match partial_match + 1\<rparr>)
      else
        (let st = st\<lparr>start_pos := get_end_match partial_match + 1\<rparr>;
             viterbi_score = dsub (get_score partial_match) dp_thresh;
             (gc', st) = save_score e w partial_match viterbi_score st
         in case init_distr_step e dp_thresh st of
              None \<Rightarrow> None
            | Some st \<Rightarrow>
                (let (pvalue', gc_bin') = match_pvalue e viterbi_score gc' st;
                     mcast_match = build_mcast_match e dp_thresh w partial_match
                                     viterbi_score pvalue' gc' gc_bin'
                 in map_option (Pair Continue) (save_match mcast_match st))))"

text \<open>
  \<^verbatim>\<open>find_next_match\<close> is not under src/: the matches it yields in a window, in the
  order of its successive calls, are an input. The loop ends when it yields no
  further match or at a \<^verbatim>\<open>break\<close>.
\<close>

fun match_loop ::
  "env \<Rightarrow> double \<Rightarrow> window \<Rightarrow> raw_match list \<Rightarrow> scan_state \<Rightarrow> scan_state option" where
  "match_loop e dp_thresh w [] st = Some st"
| "match_loop e dp_thresh w (pm # pms) st =
     (case process_match e dp_thresh w pm st of
        None \<Rightarrow> None
      | Some (Break, st') \<Rightarrow> Some st'
      | Some (Continue, st') \<Rightarrow> match_loop e dp_thresh w pms st')"

text \<open>Lines 1011--1054: the step to the next segment or the next sequence.\<close>

definition next_segment :: "env \<Rightarrow> window \<Rightarrow> scan_state \<Rightarrow> scan_state" where
  "next_segment e w st =
     (if \<not> is_complete_seq w then
        (let size_to_remove = w_trimmed_length w - OVERLAP_SIZE e;
             sp = start_pos st - size_to_remove
         in st\<lparr>start_pos := (if sp < 0 then 0 else sp)\<rparr>)
      else st\<lparr>start_pos := 0\<rparr>)"

fun scan_segments ::
  "env \<Rightarrow> double \<Rightarrow> (window \<times> raw_match list) list \<Rightarrow> scan_state \<Rightarrow> scan_state option" where
  "scan_segments e dp_thresh [] st = Some st"
| "scan_segments e dp_thresh ((w, pms) # rest) st =
     (case match_loop e dp_thresh w pms st of
        None \<Rightarrow> None
      | Some st' \<Rightarrow> scan_segments e dp_thresh rest (next_segment e w st'))"

text \<open>The state at the head of \<^verbatim>\<open>mcast_read_and_score\<close>.\<close>

definition scan_init ::
  "heap option \<Rightarrow> score_set \<Rightarrow> evd_set \<Rightarrow> double \<Rightarrow> mt_state \<Rightarrow> scan_state" where
  "scan_init match_heap ss evd_set serial prng' =
     \<lparr>start_pos = 0, min_pvalue_discarded = Num 1, got_init_evd = (evd_n evd_set > 0),
      mcast_match_heap = match_heap, the_score_set = ss, initial_evd_set = evd_set,
      serial_no = serial, prng = prng', num_matches = 0, freed = [], stderr = []\<rparr>"

definition mcast_read_and_score ::
  "env \<Rightarrow> double \<Rightarrow> heap option \<Rightarrow> score_set \<Rightarrow> evd_set \<Rightarrow> double \<Rightarrow> mt_state \<Rightarrow>
   (window \<times> raw_match list) list \<Rightarrow> scan_state option" where
  "mcast_read_and_score e dp_thresh match_heap ss evd_set serial prng' segments =
     scan_segments e dp_thresh segments (scan_init match_heap ss evd_set serial prng')"


subsection \<open>calc\_pq\_values\<close>

text \<open>Lines 1115--1128: the p-value, E-value and GC bin of one stored match.\<close>

definition set_pq :: "env \<Rightarrow> evd_set \<Rightarrow> double \<Rightarrow> int \<Rightarrow> mcast_match \<Rightarrow> mcast_match" where
  "set_pq e evd_set dp_thresh n m =
     (let score' = dsub (score m) dp_thresh;
          gc' = gc m;
          gc_bin' = evd_set_bin e gc' evd_set;
          pvalue' = evd_set_pvalue e score' gc' IGNORE_QUERY_LENGTH evd_set
      in m\<lparr>gc_bin := gc_bin', pvalue := pvalue', evalue := dmul (of_c_int n) pvalue'\<rparr>)"

text \<open>
  The array \<^verbatim>\<open>matches\<close> holds pointers, NULL being \<open>None\<close>; \<^verbatim>\<open>allocate_array\<close>
  zero-fills, so the p-value slot of a NULL match reads 0. The result is the array
  and \<^verbatim>\<open>*evd_set\<close>.
\<close>

definition calc_pq_values ::
  "env \<Rightarrow> mcast_match option list \<Rightarrow> evd_set \<Rightarrow> score_set \<Rightarrow> double \<Rightarrow> int \<Rightarrow>
   mcast_match option list \<times> evd_set" where
  "calc_pq_values e matches evd_set score_set dp_thresh n =
     (if evd_n evd_set \<le> 0 then (matches, evd_set)
      else
        (let evd_set = evd_set\<lparr>outliers := 0, min_e := BIG e, sum_log_e := Num 0\<rparr>;
             sampled_pvalues = sort_array e
               (map (\<lambda>sc. evd_set_pvalue e (sc_s sc) (sc_gc sc) IGNORE_QUERY_LENGTH evd_set)
                    (take (ss_n score_set) (scores score_set)));
             matches = map (map_option (set_pq e evd_set dp_thresh n)) matches;
             matches = qsort_matches e matches;
             pvalues = map (\<lambda>m. case m of None \<Rightarrow> Num 0 | Some m \<Rightarrow> pvalue m) matches;
             qvalues = compute_qvalues e (num_scores_seen score_set) pvalues sampled_pvalues;
             matches = map (\<lambda>i. map_option (\<lambda>m. m\<lparr>qvalue := qvalues i\<rparr>) (matches ! i))
                           [0..<length matches]
         in (matches, evd_set)))"

subsection \<open>Alphabets, read\_motifs and mcast\_generate\_synth\_seq\<close>

text \<open>
  Modelled from the spec: \<^verbatim>\<open>alphabet.c\<close> is not under src/. An alphabet has core
  symbols and complementary pairs of them; the spec's alphabet for synthetic
  generation has exactly two complementary pairs, and DNA is the alphabet of the
  G/C content it speaks of. \<^verbatim>\<open>alph_equal\<close> compares the core symbols and their
  complements.
\<close>

record alph =
  alph_name :: string
  alph_core :: string
  alph_pairs :: "(char \<times> char) list"

text \<open>Modelled from the spec: \<^verbatim>\<open>alph_size_core\<close> (alphabet.c), the number of core symbols.\<close>

definition alph_size_core :: "alph \<Rightarrow> nat" where
  "alph_size_core a = length (alph_core a)"

text \<open>Modelled from the spec: \<^verbatim>\<open>alph_size_pairs\<close> (alphabet.c), the number of complementary pairs.\<close>

definition alph_size_pairs :: "alph \<Rightarrow> nat" where
  "alph_size_pairs a = length (alph_pairs a)"

text \<open>Modelled from the spec: \<^verbatim>\<open>alph_dna\<close> (alphabet.c), the DNA alphabet.\<close>

definition alph_dna :: alph where
  "alph_dna = \<lparr>alph_name = ''DNA'', alph_core = ''ACGT'',
               alph_pairs = [(CHR ''A'', CHR ''T''), (CHR ''C'', CHR ''G'')]\<rparr>"

text \<open>Modelled from the spec: \<^verbatim>\<open>alph_equal\<close> (alphabet.c), equality of core symbols and complements.\<close>

definition alph_equal :: "alph \<Rightarrow> alph \<Rightarrow> bool" where
  "alph_equal a b = (alph_core a = alph_core b \<and> alph_pairs a = alph_pairs b)"

datatype fatal = Die string | Null_dereference

datatype motif_format = MEME_FORMAT | TRANSFAC_FORMAT | Unrecognized_format

text \<open>
  The options after \<^verbatim>\<open>process_command_line\<close> (which rejects a negative
  \<^verbatim>\<open>max_stored_scores\<close>), and what the motif parsers return for the motif file: the
  alphabet a MEME file declares and the number of motifs kept.
\<close>

record mcast_options =
  motif_format :: motif_format
  text_only :: bool
  max_stored_scores :: nat
  p_thresh :: double

record motif_file =
  mread_get_alphabet :: alph
  mf_num_motifs :: int

text \<open>\<^verbatim>\<open>read_motifs\<close>: the alphabet and the number of motifs, or a fatal error.\<close>

definition read_motifs :: "mcast_options \<Rightarrow> motif_file \<Rightarrow> fatal + (alph \<times> int)" where
  "read_motifs options mf =
     (case motif_format options of
        MEME_FORMAT \<Rightarrow>
          (let alph = mread_get_alphabet mf
           in if \<not> alph_equal alph_dna alph
              then Inl (Die ''The provided motifs don't seem to be in the DNA alphabet.'')
              else if mf_num_motifs mf \<le> 0
              then Inl (Die ''No valid motifs could be read.'')
              else Inr (alph, mf_num_motifs mf))
      | TRANSFAC_FORMAT \<Rightarrow>
          (if mf_num_motifs mf \<le> 0
           then Inl (Die ''No valid motifs could be read.'')
           else Inr (alph_dna, mf_num_motifs mf))
      | Unrecognized_format \<Rightarrow>
          Inl (Die ''Unrecognized motif format. MCAST only supports MEME and TRANSFAC formats.''))"

text \<open>
  \<^verbatim>\<open>mcast_generate_synth_seq\<close>: the check of the alphabet, then the rounds of
  generated sequences, whose fitted EVD set is the parameter \<open>synth_calc_distr\<close>.
\<close>

definition mcast_generate_synth_seq :: "env \<Rightarrow> alph \<Rightarrow> score_set \<Rightarrow> mt_state \<Rightarrow> fatal + evd_set" where
  "mcast_generate_synth_seq e alph score_set prng0 =
     (if alph_size_core alph \<noteq> 4 \<or> alph_size_pairs alph \<noteq> 2
      then Inl (Die ''Unable to generate random sequences because it requires an alphabet with 4 symbols made up of 2 complementary pairs.'')
      else Inr (synth_calc_distr e score_set prng0))"

subsection \<open>mcast and main\<close>

text \<open>The loop of \<^verbatim>\<open>mcast\<close> that turns the heap into the array \<^verbatim>\<open>mcast_matches\<close>.\<close>

fun pop_all :: "nat \<Rightarrow> heap \<Rightarrow> mcast_match option list \<Rightarrow> mcast_match option list \<times> heap" where
  "pop_all 0 h mcast_matches = (mcast_matches, h)"
| "pop_all (Suc k) h mcast_matches =
     (case pop_heap_root h of (m, h') \<Rightarrow> pop_all k h' (mcast_matches @ [m]))"

text \<open>What \<^verbatim>\<open>mcast_print_results\<close> is given, and the flag it computes.\<close>

record report =
  rep_matches :: "mcast_match option list"
  rep_evd_set :: evd_set
  stats_available :: bool
  rep_p_thresh :: double

definition mcast_print_results ::
  "mcast_options \<Rightarrow> bool \<Rightarrow> evd_set \<Rightarrow> mcast_match option list \<Rightarrow> double \<Rightarrow> fatal + report" where
  "mcast_print_results options mkdir_fails evd_set mcast_matches p_thresh' =
     (let stats = (if evd_n evd_set > 0 then True else False)
      in if \<not> text_only options \<and> mkdir_fails
         then Inl (Die ''Couldn't create output directory.'')
         else Inr \<lparr>rep_matches = mcast_matches, rep_evd_set = evd_set,
                   stats_available = stats, rep_p_thresh = p_thresh'\<rparr>)"

text \<open>
  Lines 1675--1707 of \<^verbatim>\<open>mcast\<close>: from the end of the scan of the real sequences
  to the report.
\<close>

definition mcast_finish ::
  "env \<Rightarrow> mcast_options \<Rightarrow> alph \<Rightarrow> bool \<Rightarrow> double \<Rightarrow> scan_state \<Rightarrow> fatal + report" where
  "mcast_finish e options alph mkdir_fails dp_thresh st =
     (case mcast_match_heap st of
        None \<Rightarrow> Inl Null_dereference
      | Some h \<Rightarrow>
          (let num_matches' = get_num_nodes h;
               mcast_matches = fst (pop_all num_matches' h []);
               evd_set = initial_evd_set st;
               score_set = the_score_set st
           in if num_matches' > 0 then
                (case mcast_generate_synth_seq e alph score_set (prng st) of
                   Inl f \<Rightarrow> Inl f
                 | Inr evd_set \<Rightarrow>
                     (if evd_n evd_set > 0 then
                        (let evd_set = evd_set\<lparr>evd_N := num_scores_seen score_set\<rparr>;
                             (mcast_matches, evd_set) =
                               calc_pq_values e mcast_matches evd_set score_set dp_thresh (evd_N evd_set);
                             p_thresh' = (if dlt (min_pvalue_discarded st) (p_thresh options)
                                          then min_pvalue_discarded st else p_thresh options)
                         in mcast_print_results options mkdir_fails evd_set mcast_matches p_thresh')
                      else mcast_print_results options mkdir_fails evd_set mcast_matches
                             (p_thresh options)))
              else mcast_print_results options mkdir_fails evd_set mcast_matches (p_thresh options)))"

text \<open>
  \<^verbatim>\<open>mm_resize\<close> of the score array to \<open>k\<close> slots; the contents of new slots are
  whatever the parameter \<open>fill\<close> holds.
\<close>

definition mm_resize :: "score_entry list \<Rightarrow> nat \<Rightarrow> score_entry \<Rightarrow> score_entry list" where
  "mm_resize xs k fill = take k xs @ replicate (k - length xs) fill"

text \<open>The stages of a run that have been entered, in order.\<close>

datatype phase = Read_motifs | Create_output_directory | Real_scan | Finish

text \<open>
  \<^verbatim>\<open>mcast\<close>: \<open>ss0\<close> is the score set from \<^verbatim>\<open>set_up_score_set\<close>, \<open>evd0\<close> the
  uninitialised local \<^verbatim>\<open>evd_set\<close>, \<open>seed_prng\<close> the seeded generator, \<open>segments\<close>
  the sequence segments with the matches found in each.
\<close>

definition mcast ::
  "env \<Rightarrow> mcast_options \<Rightarrow> alph \<Rightarrow> bool \<Rightarrow> bool \<Rightarrow> double \<Rightarrow> score_set \<Rightarrow> score_entry \<Rightarrow> evd_set \<Rightarrow>
   mt_state \<Rightarrow> (window \<times> raw_match list) list \<Rightarrow> phase list \<times> (fatal + report)" where
  "mcast e options alph mkdir_fails mkdir_fails2 dp_thresh ss0 fill evd0 seed_prng segments =
     (if \<not> text_only options \<and> mkdir_fails
      then ([Create_output_directory], Inl (Die ''Couldn't create output directory.''))
      else
        (let evd_set = evd0\<lparr>evd_n := 0, evds := []\<rparr>;
             score_set = ss0\<lparr>scores := mm_resize (scores ss0) (max_stored_scores options) fill,
                             max_scores_saved := max_stored_scores options\<rparr>;
             match_heap = create_heap (max_stored_scores options)
         in case mcast_read_and_score e dp_thresh (Some match_heap) score_set evd_set (Num 0)
                   seed_prng segments of
              None \<Rightarrow> ([Create_output_directory, Real_scan], Inl Null_dereference)
            | Some st \<Rightarrow>
                ([Create_output_directory, Real_scan, Finish],
                 mcast_finish e options alph mkdir_fails2 dp_thresh st)))"

text \<open>\<^verbatim>\<open>main\<close>, from \<^verbatim>\<open>read_motifs\<close> on.\<close>

definition main_prog ::
  "env \<Rightarrow> mcast_options \<Rightarrow> motif_file \<Rightarrow> bool \<Rightarrow> bool \<Rightarrow> double \<Rightarrow> score_set \<Rightarrow> score_entry \<Rightarrow> evd_set \<Rightarrow>
   mt_state \<Rightarrow> (window \<times> raw_match list) list \<Rightarrow> phase list \<times> (fatal + report)" where
  "main_prog e options mf mkdir_fails mkdir_fails2 dp_thresh ss0 fill evd0 seed_prng segments =
     (case read_motifs options mf of
        Inl f \<Rightarrow> ([Read_motifs], Inl f)
      | Inr (alph, num_motifs) \<Rightarrow>
          (case mcast e options alph mkdir_fails mkdir_fails2 dp_thresh ss0 fill evd0 seed_prng segments of
             (phases, r) \<Rightarrow> (Read_motifs # phases, r)))"


subsection \<open>The purge log and the invariant of a scan\<close>




subsection \<open>Streams of recorded scores\<close>

text \<open>
  The reservoir update (\<open>save_score\<close>) applied to the matches of a stream in turn,
  each with its score \<^verbatim>\<open>get_score - dp_thresh\<close>.
\<close>

definition record_scores :: "env \<Rightarrow> double \<Rightarrow> window \<Rightarrow> raw_match list \<Rightarrow> scan_state \<Rightarrow> scan_state" where
  "record_scores e dp_thresh w pms st =
     fold (\<lambda>pm st. snd (save_score e w pm (dsub (get_score pm) dp_thresh) st)) pms st"

text \<open>
  The matches of a window of which none starts at the scan cursor: the cursor is
  \<^verbatim>\<open>start_pos\<close> at the first match and the position after the end of the previous
  match from then on.
\<close>

fun none_skipped :: "int \<Rightarrow> raw_match list \<Rightarrow> bool" where
  "none_skipped cursor [] = True"
| "none_skipped cursor (pm # pms) =
     (get_start_match pm \<noteq> cursor \<and> none_skipped (get_end_match pm + 1) pms)"

text \<open>
  For counting: a generator whose \<open>i\<close>-th output makes the \<open>i\<close>-th drawn index
  \<open>js ! i\<close> when the reservoir has \<open>k\<close> slots (the \<open>i\<close>-th draw is made with
  \<^verbatim>\<open>num_scores_seen\<close> \<open>= k + i + 1\<close>), and all the sequences of \<open>d\<close> drawn indices
  \<open>js ! i < k + i + 1\<close>, which a uniform generator makes equally likely.
\<close>

definition index_prng :: "nat \<Rightarrow> nat list \<Rightarrow> mt_state" where
  "index_prng k js = \<lparr>mt_out = (\<lambda>i. real (js ! i) / real (k + i + 1)), mt_pos = 0\<rparr>"

fun all_draws :: "nat \<Rightarrow> nat \<Rightarrow> nat list list" where
  "all_draws k 0 = [[]]"
| "all_draws k (Suc d) = concat (map (\<lambda>js. map (\<lambda>j. js @ [j]) [0..<k + d + 1]) (all_draws k d))"

text \<open>
  The arrival numbers held by the \<open>k\<close> slots after the draws \<open>js\<close>: \<open>occ\<close> are the
  occupants so far and \<open>t\<close> is the number of the next arrival.
\<close>

fun occupants :: "nat \<Rightarrow> nat list \<Rightarrow> nat \<Rightarrow> nat list \<Rightarrow> nat list" where
  "occupants k occ t [] = occ"
| "occupants k occ t (j # js) = occupants k (if j < k then occ[j := t] else occ) (Suc t) js"

subsection \<open>Example data\<close>

definition match_with_pvalue :: "double \<Rightarrow> mcast_match" where
  "match_with_pvalue p =
     \<lparr>seq_name = ''chr1'', seq_length = 1000, seq_start = 0, score = Num 10, pvalue = p,
      evalue = NaN, qvalue = NaN, gc = Num (1/2), gc_bin = 0, start = 1, stop = 20\<rparr>"

definition example_evd_set :: evd_set where
  "example_evd_set =
     \<lparr>evd_n = 1, evd_N = 0, outliers = 0, min_e = Num 0, sum_log_e = Num 0,
      evds = [EVD [Num 1]]\<rparr>"

definition example_pvalue :: "double \<Rightarrow> double" where
  "example_pvalue s = (case s of NaN \<Rightarrow> NaN | Num x \<Rightarrow> Num (1 / (2 + \<bar>x\<bar>)))"

definition example_env :: env where
  "example_env =
     \<lparr>LOG_SMALL = Num (- 5000000000), OVERLAP_SIZE = 1000, BIG = Num 10000000000,
      calc_distr = (\<lambda>ss. example_evd_set\<lparr>evd_n := (if 2 \<le> ss_n ss then 1 else 0)\<rparr>),
      evd_set_bin = (\<lambda>g evd. 0),
      evd_set_pvalue = (\<lambda>s g l evd. example_pvalue s),
      allocate_mcast_match = match_with_pvalue NaN,
      sort_array = (\<lambda>xs. xs),
      qsort_matches = (\<lambda>ms. ms),
      compute_qvalues = (\<lambda>n ps sps i. if i < length ps then ps ! i else NaN),
      synth_calc_distr = (\<lambda>ss g. example_evd_set)\<rparr>"

definition example_score_entry :: score_entry where
  "example_score_entry =
     \<lparr>sc_s = Num 0, sc_t = 0, sc_nhits = 0, sc_span = 0, sc_gc = Num 0, sc_serial_no = Num 0\<rparr>"

definition example_score_set :: "nat \<Rightarrow> score_set" where
  "example_score_set k =
     \<lparr>scores = replicate k example_score_entry, ss_n = 0, max_scores_saved = k,
      num_scores_seen = 0, max_t = 0, total_length = 0\<rparr>"

definition example_prng :: mt_state where
  "example_prng = \<lparr>mt_out = (\<lambda>k. 1 / 2), mt_pos = 0\<rparr>"

definition example_window :: "bool \<Rightarrow> window" where
  "example_window final =
     \<lparr>is_complete_seq = final, w_seq_length = 2000, w_seq_offset = 0, w_seq_name = ''chr1'',
      get_seq_gc = (\<lambda>i. Num (real_of_int i / 2)), w_trimmed_length = 1998\<rparr>"

definition example_raw_match :: "int \<Rightarrow> int \<Rightarrow> double \<Rightarrow> raw_match" where
  "example_raw_match a b s =
     \<lparr>get_start_match = a, get_end_match = b, get_score = s, get_match_seq_length = b - a + 1,
      get_nhits = 2\<rparr>"

definition example_state :: "nat \<Rightarrow> scan_state" where
  "example_state k =
     scan_init (Some (create_heap k)) (example_score_set k) (example_evd_set\<lparr>evd_n := 0\<rparr>)
       (Num 0) example_prng"

definition example_options :: mcast_options where
  "example_options =
     \<lparr>motif_format = MEME_FORMAT, text_only = True, max_stored_scores = 4, p_thresh = Num 1\<rparr>"

definition example_dna_motifs :: motif_file where
  "example_dna_motifs = \<lparr>mread_get_alphabet = alph_dna, mf_num_motifs = 3\<rparr>"

definition example_protein_motifs :: motif_file where
  "example_protein_motifs =
     \<lparr>mread_get_alphabet =
        \<lparr>alph_name = ''Protein'', alph_core = ''ACDEFGHIKLMNPQRSTVWY'', alph_pairs = []\<rparr>,
      mf_num_motifs = 3\<rparr>"

text \<open>
  A scan with a heap of four records and a reservoir of two scores, and its state
  after the first matches of a window.
\<close>

definition example_fit_state :: scan_state where
  "example_fit_state =
     scan_init (Some (create_heap 4)) (example_score_set 2) (example_evd_set\<lparr>evd_n := 0\<rparr>)
       (Num 0) example_prng"

definition example_after :: "raw_match list \<Rightarrow> scan_state" where
  "example_after pms =
     the (match_loop example_env (Num 2) (example_window True) pms example_fit_state)"

section \<open>Properties\<close>

subsection \<open>The significance order\<close>

lemma sig_le_refl: "sig_le a a"
  by (cases a) auto

lemma sig_le_trans: "sig_le a b \<Longrightarrow> sig_le b c \<Longrightarrow> sig_le a c"
  by (cases a; cases b; cases c) auto

lemma sig_le_total: "sig_le a b \<or> sig_le b a"
  by (cases a; cases b) auto

lemma dge_sig_le: "dge a b \<Longrightarrow> sig_le b a"
  by (cases a; cases b) auto

lemma not_dge_mono: "sig_le a b \<Longrightarrow> \<not> dge b m \<Longrightarrow> \<not> dge a m"
  by (cases a; cases b; cases m) auto

lemma heap_ordered_Cons:
  "heap_ordered (x # xs) = ((\<forall>y\<in>set xs. sig_le (pvalue y) (pvalue x)) \<and> heap_ordered xs)"
  by (simp add: heap_ordered_def)

lemma heap_ordered_append:
  "heap_ordered (xs @ ys) =
     (heap_ordered xs \<and> heap_ordered ys \<and> (\<forall>a\<in>set xs. \<forall>b\<in>set ys. sig_le (pvalue b) (pvalue a)))"
  by (simp add: heap_ordered_def sorted_wrt_append)

subsection \<open>purge\_match\_heap in closed form\<close>

lemma pop_heap_root_Cons:
  "node_list h = r # rs \<Longrightarrow> pop_heap_root h = (Some r, h\<lparr>node_list := rs\<rparr>)"
  by (simp add: pop_heap_root_def)

lemma purge_delete_closed:
  "k \<le> length (node_list h) \<Longrightarrow>
   purge_delete k h fr m =
     Some (h\<lparr>node_list := drop k (node_list h)\<rparr>, fr @ take k (node_list h),
           if k = 0 then m else pvalue (node_list h ! (k - 1)))"
proof (induction k arbitrary: h fr m)
  case 0
  then show ?case by simp
next
  case (Suc k)
  then obtain r rs where ns: "node_list h = r # rs" by (cases "node_list h") auto
  with Suc.prems have k: "k \<le> length (node_list (h\<lparr>node_list := rs\<rparr>))" by simp
  show ?case
    using Suc.IH [OF k, of "fr @ [r]" "pvalue r"] ns
    by (cases k) (simp_all add: pop_heap_root_Cons)
qed

lemma purge_while_closed:
  "node_list h = v # vs \<Longrightarrow>
   purge_while h fr (pvalue v) m =
     (h\<lparr>node_list := dropWhile (\<lambda>r. dge (pvalue r) m) (node_list h)\<rparr>,
      fr @ takeWhile (\<lambda>r. dge (pvalue r) m) (node_list h))"
proof (induction vs arbitrary: h fr v)
  case Nil
  then show ?case by (simp add: pop_heap_root_Cons get_root_def)
next
  case (Cons w ws)
  have n': "node_list (h\<lparr>node_list := w # ws\<rparr>) = w # ws" by simp
  show ?case
    using Cons.IH [OF n', of "fr @ [v]"] Cons.prems
    by (simp add: pop_heap_root_Cons get_root_def)
qed

lemma purge_match_heap_closed:
  "purge_match_heap h =
     (let ns = node_list h; d = length ns div 2;
          m = (if d = 0 then Num 1 else pvalue (ns ! (d - 1)));
          P = (\<lambda>r. dge (pvalue r) m)
      in Some (take d ns @ takeWhile P (drop d ns),
               h\<lparr>node_list := dropWhile P (drop d ns)\<rparr>, m))"
proof -
  let ?ns = "node_list h"
  let ?d = "length ?ns div 2"
  have d: "?d \<le> length ?ns" by simp
  show ?thesis
  proof (cases "drop ?d ?ns")
    case Nil
    then have "length ?ns \<le> ?d" by (simp only: drop_eq_Nil)
    then have "length ?ns = 0" by arith
    then have "?ns = []" by simp
    then show ?thesis
      by (simp add: purge_match_heap_def get_num_nodes_def get_root_def Let_def)
  next
    case (Cons v vs)
    then have n': "node_list (h\<lparr>node_list := drop ?d ?ns\<rparr>) = v # vs" by simp
    show ?thesis
      using purge_delete_closed [OF d, of "[]" "Num 1"] purge_while_closed [OF n'] Cons
      by (simp add: purge_match_heap_def get_num_nodes_def get_root_def Let_def)
  qed
qed

lemma heap_ordered_dropWhile_below:
  "heap_ordered ys \<Longrightarrow> \<forall>r\<in>set (dropWhile (\<lambda>r. dge (pvalue r) m) ys). \<not> dge (pvalue r) m"
proof (induction ys)
  case Nil
  then show ?case by simp
next
  case (Cons y ys)
  from Cons.prems have ys: "heap_ordered ys"
    by (simp add: heap_ordered_Cons)
  from Cons.prems have below: "\<forall>r\<in>set ys. sig_le (pvalue r) (pvalue y)"
    by (simp add: heap_ordered_Cons)
  show ?case
  proof (cases "dge (pvalue y) m")
    case True
    then have "dropWhile (\<lambda>r. dge (pvalue r) m) (y # ys) = dropWhile (\<lambda>r. dge (pvalue r) m) ys"
      by simp
    then show ?thesis using Cons.IH [OF ys] by (simp only:)
  next
    case False
    have "\<forall>r\<in>set ys. \<not> dge (pvalue r) m"
    proof
      fix r assume "r \<in> set ys"
      with below have "sig_le (pvalue r) (pvalue y)" by blast
      then show "\<not> dge (pvalue r) m" using False by (rule not_dge_mono)
    qed
    moreover have "dropWhile (\<lambda>r. dge (pvalue r) m) (y # ys) = y # ys"
      using False by simp
    ultimately show ?thesis using False by (simp only: set_simps ball_simps simp_thms)
  qed
qed

lemma heap_ordered_take_last:
  assumes "heap_ordered ns" "0 < d" "d \<le> length ns" "r \<in> set (take d ns)"
  shows "sig_le (pvalue (ns ! (d - 1))) (pvalue r)"
proof -
  from assms(4) obtain i where i: "i < d" "i < length ns" "r = ns ! i"
    by (auto simp: in_set_conv_nth)
  show ?thesis
  proof (cases "i = d - 1")
    case True
    with i show ?thesis by (simp add: sig_le_refl)
  next
    case False
    with i assms have "i < d - 1" "d - 1 < length ns" by auto
    with assms(1) i show ?thesis
      by (simp add: heap_ordered_def sorted_wrt_iff_nth_less)
  qed
qed

text \<open>
  C1 (as amended). For a heap of size \<open>s\<close> in heap order, \<^verbatim>\<open>purge_match_heap\<close>
  removes the \<open>\<lfloor>s/2\<rfloor>\<close> weakest entries (the number is \<^verbatim>\<open>get_num_nodes / 2\<close> in
  integer arithmetic, not \<open>\<lceil>s/2\<rceil>\<close>), then keeps removing the root while its
  p-value is \<open>\<ge>\<close> the threshold, and returns the threshold. The threshold is the
  p-value of the last entry removed by the first loop, or 1.0 when \<open>s < 2\<close>; no
  discarded entry is more significant than it, and every retained entry
  compares below it.
\<close>

theorem purge_match_heap_floor_half:
  "heap_ordered (node_list h) \<Longrightarrow>
   (let ns = node_list h; d = length ns div 2;
        m = (if d = 0 then Num 1 else pvalue (ns ! (d - 1)));
        P = (\<lambda>r. dge (pvalue r) m)
    in purge_match_heap h =
         Some (take d ns @ takeWhile P (drop d ns), h\<lparr>node_list := dropWhile P (drop d ns)\<rparr>, m)
       \<and> (\<forall>a\<in>set (take d ns). \<forall>b\<in>set (drop d ns). sig_le (pvalue b) (pvalue a))
       \<and> (\<forall>r\<in>set (take d ns @ takeWhile P (drop d ns)). sig_le m (pvalue r))
       \<and> (\<forall>r\<in>set (dropWhile P (drop d ns)). \<not> dge (pvalue r) m))"
proof -
  assume ord: "heap_ordered (node_list h)"
  let ?ns = "node_list h"
  let ?d = "length ?ns div 2"
  let ?m = "if ?d = 0 then Num 1 else pvalue (?ns ! (?d - 1))"
  let ?P = "\<lambda>r. dge (pvalue r) ?m"
  have split: "heap_ordered (take ?d ?ns @ drop ?d ?ns)" using ord by simp
  have c1: "purge_match_heap h =
         Some (take ?d ?ns @ takeWhile ?P (drop ?d ?ns), h\<lparr>node_list := dropWhile ?P (drop ?d ?ns)\<rparr>, ?m)"
    using purge_match_heap_closed [of h] by (simp add: Let_def)
  have c2: "\<forall>a\<in>set (take ?d ?ns). \<forall>b\<in>set (drop ?d ?ns). sig_le (pvalue b) (pvalue a)"
    using split unfolding heap_ordered_append by blast
  have c3a: "\<forall>r\<in>set (take ?d ?ns). sig_le ?m (pvalue r)"
  proof
    fix r assume r: "r \<in> set (take ?d ?ns)"
    then have "0 < ?d" by (cases "?d = 0") auto
    then show "sig_le ?m (pvalue r)"
      using heap_ordered_take_last [OF ord _ _ r] by simp
  qed
  have c3b: "\<forall>r\<in>set (takeWhile ?P (drop ?d ?ns)). sig_le ?m (pvalue r)"
    by (auto dest!: set_takeWhileD intro: dge_sig_le)
  have c4: "\<forall>r\<in>set (dropWhile ?P (drop ?d ?ns)). \<not> dge (pvalue r) ?m"
    using split heap_ordered_dropWhile_below unfolding heap_ordered_append by blast
  have c3: "\<forall>r\<in>set (take ?d ?ns @ takeWhile ?P (drop ?d ?ns)). sig_le ?m (pvalue r)"
    using c3a c3b by (simp only: set_append ball_Un)
  show ?thesis
    unfolding Let_def by (intro conjI c1 c2 c3 c4)
qed

theorem purge_match_heap_floor_half_witness:
  "heap_ordered (node_list \<lparr>max_size = 5, node_list = map (match_with_pvalue \<circ> Num) [5/10, 4/10, 4/10, 4/10, 1/10]\<rparr>)
   \<and> purge_match_heap \<lparr>max_size = 5, node_list = map (match_with_pvalue \<circ> Num) [5/10, 4/10, 4/10, 4/10, 1/10]\<rparr>
     = Some (map (match_with_pvalue \<circ> Num) [5/10, 4/10, 4/10, 4/10],
             \<lparr>max_size = 5, node_list = map (match_with_pvalue \<circ> Num) [1/10]\<rparr>, Num (4/10))"
proof -
  let ?h = "\<lparr>max_size = 5, node_list = map (match_with_pvalue \<circ> Num) [5/10, 4/10, 4/10, 4/10, 1/10]\<rparr>"
  have ord: "heap_ordered (node_list ?h)"
    by (simp add: heap_ordered_def match_with_pvalue_def)
  show ?thesis
    using ord purge_match_heap_floor_half [OF ord]
    by (simp add: Let_def match_with_pvalue_def)
qed

text \<open>
  C1 as stated fails: a heap of three entries loses one entry, not \<open>\<lceil>3/2\<rceil> = 2\<close>,
  and the value returned is the p-value of that one entry.
\<close>

theorem purge_match_heap_ceiling_counterexample:
  "purge_match_heap \<lparr>max_size = 3, node_list = map (match_with_pvalue \<circ> Num) [3/10, 2/10, 1/10]\<rparr>
     = Some (map (match_with_pvalue \<circ> Num) [3/10],
             \<lparr>max_size = 3, node_list = map (match_with_pvalue \<circ> Num) [2/10, 1/10]\<rparr>, Num (3/10))
   \<and> length (map (match_with_pvalue \<circ> Num) [3/10]) \<noteq> (3 + 1) div 2"
  by (simp add: purge_match_heap_closed Let_def match_with_pvalue_def)

subsection \<open>The loop body never reads a NULL match\<close>

lemma rescore_loop_closed:
  "k \<le> length (node_list h) \<Longrightarrow>
   rescore_loop e evd dp k h acc =
     Some (h\<lparr>node_list := drop k (node_list h)\<rparr>,
           acc @ map (rescore_match e evd dp) (take k (node_list h)))"
proof (induction k arbitrary: h acc)
  case 0
  then show ?case by simp
next
  case (Suc k)
  then obtain r rs where ns: "node_list h = r # rs" by (cases "node_list h") auto
  with Suc.prems have k: "k \<le> length (node_list (h\<lparr>node_list := rs\<rparr>))" by simp
  show ?case
    using Suc.IH [OF k, of "acc @ [rescore_match e evd dp r]"] ns
    by (simp add: pop_heap_root_Cons)
qed

lemma calc_init_distr_closed:
  "calc_init_distr e ss h dp =
     Some (calc_distr e ss,
           if evd_n (calc_distr e ss) > 0
           then reinsert_loop (h\<lparr>node_list := []\<rparr>) (map (rescore_match e (calc_distr e ss) dp) (node_list h))
           else h,
           evd_n (calc_distr e ss) > 0)"
  using rescore_loop_closed [of "length (node_list h)" h e "calc_distr e ss" dp "[]"]
  by (simp add: calc_init_distr_def get_num_nodes_def Let_def)

lemma init_distr_step_total: "\<exists>st'. init_distr_step e dp st = Some st'"
  by (simp add: init_distr_step_def calc_init_distr_closed split: option.splits)

lemma save_match_total: "\<exists>st'. save_match m st = Some st'"
  by (simp add: save_match_def purge_match_heap_closed Let_def split: option.splits)

lemma process_match_total: "\<exists>c st'. process_match e dp w pm st = Some (c, st')"
proof -
  obtain g st1 where s1: "save_score e w pm (dsub (get_score pm) dp) (st\<lparr>start_pos := get_end_match pm + 1\<rparr>) = (g, st1)"
    by (cases "save_score e w pm (dsub (get_score pm) dp) (st\<lparr>start_pos := get_end_match pm + 1\<rparr>)") auto
  obtain st2 where s2: "init_distr_step e dp st1 = Some st2"
    using init_distr_step_total by blast
  obtain pv gb where s3: "match_pvalue e (dsub (get_score pm) dp) g st2 = (pv, gb)"
    by (cases "match_pvalue e (dsub (get_score pm) dp) g st2") auto
  obtain st3 where s4: "save_match (build_mcast_match e dp w pm (dsub (get_score pm) dp) pv g gb) st2 = Some st3"
    using save_match_total by blast
  show ?thesis
    by (simp add: process_match_def Let_def s1 s2 s3 s4)
qed

subsection \<open>Unfolding a run on the example data\<close>

lemmas example_run_defs = mcast_read_and_score_def scan_init_def process_match_def save_score_def
        reservoir_slot_def mts_drand_def init_distr_step_def calc_init_distr_closed
        match_pvalue_def build_mcast_match_def save_match_def purge_match_heap_closed
        add_node_heap_def get_num_nodes_def get_max_size_def create_heap_def next_segment_def
        example_env_def example_score_set_def example_evd_set_def example_prng_def
        example_window_def example_raw_match_def example_pvalue_def example_score_entry_def
        rescore_match_def of_c_int_def Let_def IGNORE_QUERY_LENGTH_def match_with_pvalue_def
        example_state_def c_int_def array_store_def double_to_int_def

subsection \<open>Skipped and deferred matches\<close>

text \<open>
  C7 (as amended). In the loop over the matches of a window, the overlap test comes
  first: (b) in a non-final window a match that starts after
  \<open>window length - OVERLAP_SIZE\<close> ends the loop for this window with the state
  unchanged, so it is not recorded here and is left to the next window; (a) a match
  that starts at the scan cursor and is not deferred by (b) is skipped: nothing but
  the cursor changes, and the cursor becomes the position after the match's end.
\<close>

theorem process_match_skip_and_defer:
  "(\<not> is_complete_seq w \<and> get_start_match pm > w_seq_length w - OVERLAP_SIZE e \<longrightarrow>
      process_match e dp w pm st = Some (Break, st)
      \<and> match_loop e dp w (pm # pms) st = Some st)
   \<and> (\<not> (\<not> is_complete_seq w \<and> get_start_match pm > w_seq_length w - OVERLAP_SIZE e)
      \<and> get_start_match pm = start_pos st \<longrightarrow>
      process_match e dp w pm st = Some (Continue, st\<lparr>start_pos := get_end_match pm + 1\<rparr>))"
  by (auto simp: process_match_def)

theorem process_match_skip_and_defer_witness:
  "(\<not> is_complete_seq (example_window False)
    \<and> get_start_match (example_raw_match 1500 1520 (Num 12)) > w_seq_length (example_window False) - OVERLAP_SIZE example_env
    \<and> process_match example_env (Num 2) (example_window False) (example_raw_match 1500 1520 (Num 12)) (example_state 4)
        = Some (Break, example_state 4))
   \<and> (is_complete_seq (example_window True)
    \<and> get_start_match (example_raw_match 0 20 (Num 12)) = start_pos (example_state 4)
    \<and> process_match example_env (Num 2) (example_window True) (example_raw_match 0 20 (Num 12)) (example_state 4)
        = Some (Continue, (example_state 4)\<lparr>start_pos := 21\<rparr>))"
  using process_match_skip_and_defer [where w = "example_window False"
          and pm = "example_raw_match 1500 1520 (Num 12)" and e = example_env and dp = "Num 2"
          and st = "example_state 4" and pms = "[]"]
        process_match_skip_and_defer [where w = "example_window True"
          and pm = "example_raw_match 0 20 (Num 12)" and e = example_env and dp = "Num 2"
          and st = "example_state 4" and pms = "[]"]
  by (simp add: example_window_def example_raw_match_def example_env_def example_state_def scan_init_def)

text \<open>
  C7 as stated fails where (a) and (b) meet: a match that starts at the cursor and
  inside the overlap region of a non-final window ends the loop, and the cursor is
  not advanced past its end.
\<close>

theorem process_match_cursor_counterexample:
  "get_start_match (example_raw_match 1500 1520 (Num 12)) = start_pos ((example_state 4)\<lparr>start_pos := 1500\<rparr>)
   \<and> process_match example_env (Num 2) (example_window False) (example_raw_match 1500 1520 (Num 12))
        ((example_state 4)\<lparr>start_pos := 1500\<rparr>)
      = Some (Break, (example_state 4)\<lparr>start_pos := 1500\<rparr>)
   \<and> start_pos ((example_state 4)\<lparr>start_pos := 1500\<rparr>)
      \<noteq> get_end_match (example_raw_match 1500 1520 (Num 12)) + 1"
  by (simp add: process_match_def example_window_def example_raw_match_def example_env_def
        example_state_def scan_init_def)

subsection \<open>Tiny scores\<close>

lemma save_score_tiny:
  "\<not> dgt v (LOG_SMALL e) \<Longrightarrow> save_score e w pm v st = (Num 0, st)"
  by (simp add: save_score_def)

lemma init_distr_step_score_set:
  "init_distr_step e dp st = Some st' \<Longrightarrow>
   the_score_set st' = the_score_set st \<and> serial_no st' = serial_no st \<and> prng st' = prng st
   \<and> start_pos st' = start_pos st"
  by (auto simp: init_distr_step_def split: option.splits if_splits)

lemma save_match_score_set:
  "save_match m st = Some st' \<Longrightarrow>
   the_score_set st' = the_score_set st \<and> serial_no st' = serial_no st \<and> prng st' = prng st
   \<and> start_pos st' = start_pos st"
  by (auto simp: save_match_def Let_def split: option.splits if_splits)

text \<open>
  C10. A match whose adjusted score (\<^verbatim>\<open>get_score - dp_thresh\<close>) is not greater than
  \<^verbatim>\<open>LOG_SMALL\<close> leaves the score set as it was: \<^verbatim>\<open>num_scores_seen\<close> is not
  incremented, no reservoir slot is written, no random number is drawn and no
  serial number is used. The loop body returns for every input.
\<close>

theorem tiny_score_not_counted:
  assumes "\<not> dgt (dsub (get_score pm) dp) (LOG_SMALL e)"
  shows "\<exists>c st'. process_match e dp w pm st = Some (c, st')
           \<and> the_score_set st' = the_score_set st
           \<and> num_scores_seen (the_score_set st') = num_scores_seen (the_score_set st)
           \<and> scores (the_score_set st') = scores (the_score_set st)
           \<and> serial_no st' = serial_no st \<and> prng st' = prng st"
proof -
  obtain c st' where r: "process_match e dp w pm st = Some (c, st')"
    using process_match_total by blast
  have "the_score_set st' = the_score_set st \<and> serial_no st' = serial_no st \<and> prng st' = prng st"
    using r assms
    by (auto simp: process_match_def Let_def save_score_tiny split: if_splits option.splits prod.splits
          dest!: init_distr_step_score_set save_match_score_set)
  with r show ?thesis by simp
qed

theorem tiny_score_not_counted_witness:
  "\<not> dgt (dsub (get_score (example_raw_match 5 20 (Num (- 6000000000)))) (Num 2)) (LOG_SMALL example_env)
   \<and> (\<exists>c st'. process_match example_env (Num 2) (example_window True)
                  (example_raw_match 5 20 (Num (- 6000000000))) (example_state 4) = Some (c, st')
           \<and> the_score_set st' = the_score_set (example_state 4)
           \<and> num_scores_seen (the_score_set st') = 0)"
proof -
  have h: "\<not> dgt (dsub (get_score (example_raw_match 5 20 (Num (- 6000000000)))) (Num 2)) (LOG_SMALL example_env)"
    by (simp add: example_raw_match_def example_env_def)
  have z: "num_scores_seen (the_score_set (example_state 4)) = 0"
    by (simp add: example_state_def scan_init_def example_score_set_def)
  show ?thesis
    using h z tiny_score_not_counted [OF h, of "example_window True" "example_state 4"]
    by auto
qed

subsection \<open>The end of the run: calc\_pq\_values and the report\<close>

lemma pop_all_closed:
  "k \<le> length (node_list h) \<Longrightarrow>
   pop_all k h acc = (acc @ map Some (take k (node_list h)), h\<lparr>node_list := drop k (node_list h)\<rparr>)"
proof (induction k arbitrary: h acc)
  case 0
  then show ?case by simp
next
  case (Suc k)
  then obtain r rs where ns: "node_list h = r # rs" by (cases "node_list h") auto
  with Suc.prems have k: "k \<le> length (node_list (h\<lparr>node_list := rs\<rparr>))" by simp
  show ?case
    using Suc.IH [OF k, of "acc @ [Some r]"] ns
    by (simp add: pop_heap_root_Cons)
qed

lemma pop_all_heap: "fst (pop_all (length (node_list h)) h []) = map Some (node_list h)"
  by (simp add: pop_all_closed)

lemma calc_pq_values_evd_n: "evd_n (snd (calc_pq_values e ms evd ss dp n)) = evd_n evd"
  by (simp add: calc_pq_values_def Let_def)

lemma calc_pq_values_evd_N: "evd_N (snd (calc_pq_values e ms evd ss dp n)) = evd_N evd"
  by (simp add: calc_pq_values_def Let_def)

lemma mcast_print_results_Inr:
  "mcast_print_results options mk evd ms pt = Inr rep \<Longrightarrow>
   rep_matches rep = ms \<and> rep_evd_set rep = evd \<and> stats_available rep = (evd_n evd > 0)"
  by (auto simp: mcast_print_results_def Let_def split: if_splits)

lemma mcast_finish_cases:
  assumes "mcast_match_heap st = Some h" "mcast_finish e options a mk dp st = Inr rep"
  shows "stats_available rep = (evd_n (rep_evd_set rep) > 0) \<and>
    ((node_list h = [] \<and> rep_matches rep = [] \<and> rep_evd_set rep = initial_evd_set st) \<or>
     (\<exists>ev. node_list h \<noteq> [] \<and> mcast_generate_synth_seq e a (the_score_set st) (prng st) = Inr ev
        \<and> \<not> 0 < evd_n ev \<and> rep_matches rep = map Some (node_list h) \<and> rep_evd_set rep = ev) \<or>
     (\<exists>ev. node_list h \<noteq> [] \<and> mcast_generate_synth_seq e a (the_score_set st) (prng st) = Inr ev
        \<and> 0 < evd_n ev
        \<and> (rep_matches rep, rep_evd_set rep) =
            calc_pq_values e (map Some (node_list h))
              (ev\<lparr>evd_N := num_scores_seen (the_score_set st)\<rparr>) (the_score_set st) dp
              (num_scores_seen (the_score_set st))))"
  using assms
  by (auto simp: mcast_finish_def Let_def pop_all_heap get_num_nodes_def
        split: if_splits sum.splits prod.splits dest!: mcast_print_results_Inr)

text \<open>
  C6. When the EVD set has \<open>n \<le> 0\<close>, \<^verbatim>\<open>calc_pq_values\<close> returns at once: the matches
  and the EVD set are unchanged. When the EVD set handed to \<^verbatim>\<open>mcast_print_results\<close>
  has \<open>n \<le> 0\<close>, \<^verbatim>\<open>calc_pq_values\<close> was not called, the reported matches are the
  records popped from the heap as they were, and \<^verbatim>\<open>stats_available\<close> is false.
\<close>

theorem no_statistics_without_evd:
  "(evd_n evd \<le> 0 \<longrightarrow> calc_pq_values e ms evd ss dp n = (ms, evd))
   \<and> (mcast_match_heap st = Some h \<and> mcast_finish e options a mk dp st = Inr rep
        \<and> evd_n (rep_evd_set rep) \<le> 0 \<longrightarrow>
      stats_available rep = False \<and> rep_matches rep = map Some (node_list h))"
proof -
  have p1: "evd_n evd \<le> 0 \<longrightarrow> calc_pq_values e ms evd ss dp n = (ms, evd)"
    by (simp add: calc_pq_values_def)
  have p2: "mcast_match_heap st = Some h \<and> mcast_finish e options a mk dp st = Inr rep
        \<and> evd_n (rep_evd_set rep) \<le> 0 \<longrightarrow>
      stats_available rep = False \<and> rep_matches rep = map Some (node_list h)"
  proof (rule impI)
  assume a: "mcast_match_heap st = Some h \<and> mcast_finish e options a mk dp st = Inr rep
        \<and> evd_n (rep_evd_set rep) \<le> 0"
  then have hp: "mcast_match_heap st = Some h"
    and fin: "mcast_finish e options a mk dp st = Inr rep"
    and n0: "evd_n (rep_evd_set rep) \<le> 0" by simp_all
  note c = mcast_finish_cases [OF hp fin]
  have "\<not> (\<exists>ev. 0 < evd_n ev
        \<and> (rep_matches rep, rep_evd_set rep) =
            calc_pq_values e (map Some (node_list h))
              (ev\<lparr>evd_N := num_scores_seen (the_score_set st)\<rparr>) (the_score_set st) dp
              (num_scores_seen (the_score_set st)))"
  proof
    assume "\<exists>ev. 0 < evd_n ev
        \<and> (rep_matches rep, rep_evd_set rep) =
            calc_pq_values e (map Some (node_list h))
              (ev\<lparr>evd_N := num_scores_seen (the_score_set st)\<rparr>) (the_score_set st) dp
              (num_scores_seen (the_score_set st))"
    then obtain ev where ev: "0 < evd_n ev"
      and eq: "(rep_matches rep, rep_evd_set rep) =
            calc_pq_values e (map Some (node_list h))
              (ev\<lparr>evd_N := num_scores_seen (the_score_set st)\<rparr>) (the_score_set st) dp
              (num_scores_seen (the_score_set st))"
      by blast
    have "evd_n (rep_evd_set rep) = evd_n (ev\<lparr>evd_N := num_scores_seen (the_score_set st)\<rparr>)"
      using calc_pq_values_evd_n [of e "map Some (node_list h)"
              "ev\<lparr>evd_N := num_scores_seen (the_score_set st)\<rparr>" "the_score_set st" dp
              "num_scores_seen (the_score_set st)"]
      by (simp add: eq [symmetric])
    with ev n0 show False by simp
  qed
  with c n0 show "stats_available rep = False \<and> rep_matches rep = map Some (node_list h)"
    by auto
  qed
  show ?thesis by (rule conjI [OF p1 p2])
qed

theorem no_statistics_without_evd_witness:
  "evd_n (example_evd_set\<lparr>evd_n := 0\<rparr>) \<le> 0
   \<and> calc_pq_values example_env [Some (match_with_pvalue NaN)] (example_evd_set\<lparr>evd_n := 0\<rparr>)
        (example_score_set 4) (Num 2) 7
      = ([Some (match_with_pvalue NaN)], example_evd_set\<lparr>evd_n := 0\<rparr>)
   \<and> (\<exists>rep. mcast_finish (example_env\<lparr>synth_calc_distr := \<lambda>ss g. example_evd_set\<lparr>evd_n := 0\<rparr>\<rparr>)
               \<lparr>motif_format = MEME_FORMAT, text_only = True, max_stored_scores = 4, p_thresh = Num 1\<rparr>
               alph_dna False (Num 2)
               ((example_state 4)\<lparr>mcast_match_heap :=
                  Some \<lparr>max_size = 4, node_list = [match_with_pvalue NaN]\<rparr>\<rparr>) = Inr rep
          \<and> evd_n (rep_evd_set rep) \<le> 0
          \<and> stats_available rep = False
          \<and> rep_matches rep = [Some (match_with_pvalue NaN)])"
proof -
  let ?e = "example_env\<lparr>synth_calc_distr := \<lambda>ss g. example_evd_set\<lparr>evd_n := 0\<rparr>\<rparr>"
  let ?o = "\<lparr>motif_format = MEME_FORMAT, text_only = True, max_stored_scores = 4, p_thresh = Num 1\<rparr>"
  let ?h = "\<lparr>max_size = 4, node_list = [match_with_pvalue NaN]\<rparr>"
  let ?st = "(example_state 4)\<lparr>mcast_match_heap := Some ?h\<rparr>"
  let ?rep = "\<lparr>rep_matches = [Some (match_with_pvalue NaN)], rep_evd_set = example_evd_set\<lparr>evd_n := 0\<rparr>,
               stats_available = False, rep_p_thresh = Num 1\<rparr>"
  have n0: "evd_n (example_evd_set\<lparr>evd_n := 0\<rparr>) \<le> 0" by simp
  have hp: "mcast_match_heap ?st = Some ?h" by simp
  have fin: "mcast_finish ?e ?o alph_dna False (Num 2) ?st = Inr ?rep"
    by (simp add: mcast_finish_def mcast_generate_synth_seq_def alph_dna_def alph_size_core_def
          alph_size_pairs_def get_num_nodes_def pop_heap_root_def mcast_print_results_def
          example_env_def example_state_def scan_init_def Let_def numeral_2_eq_2 One_nat_def)
  have n1: "evd_n (rep_evd_set ?rep) \<le> 0" by simp
  show ?thesis
    using n0 fin
      no_statistics_without_evd [where evd = "example_evd_set\<lparr>evd_n := 0\<rparr>" and e = example_env
        and ms = "[Some (match_with_pvalue NaN)]" and ss = "example_score_set 4" and dp = "Num 2"
        and n = 7 and st = ?st and h = ?h and options = ?o and a = alph_dna and mk = False
        and rep = ?rep]
    by simp
qed


lemma set_pq_evalue:
  "evalue (set_pq e evd dp n m) = dmul (of_c_int n) (pvalue (set_pq e evd dp n m))"
  by (simp add: set_pq_def Let_def)

lemma calc_pq_values_evalue:
  assumes perm: "\<forall>xs. mset (qsort_matches e xs) = mset xs"
    and pos: "0 < evd_n evd"
    and res: "(ms', evd') = calc_pq_values e ms evd ss dp n"
  shows "length ms' = length ms
         \<and> (\<forall>m. Some m \<in> set ms' \<longrightarrow> evalue m = dmul (of_c_int n) (pvalue m))"
proof -
  let ?evd = "evd\<lparr>outliers := 0, min_e := BIG e, sum_log_e := Num 0\<rparr>"
  let ?m1 = "map (map_option (set_pq e ?evd dp n)) ms"
  let ?m2 = "qsort_matches e ?m1"
  define q where "q = compute_qvalues e (num_scores_seen ss)
      (map (\<lambda>m. case m of None \<Rightarrow> Num 0 | Some m \<Rightarrow> pvalue m) ?m2)
      (sort_array e (map (\<lambda>sc. evd_set_pvalue e (sc_s sc) (sc_gc sc) IGNORE_QUERY_LENGTH ?evd)
                        (take (ss_n ss) (scores ss))))"
  have ms': "ms' = map (\<lambda>i. map_option (\<lambda>m. m\<lparr>qvalue := q i\<rparr>) (?m2 ! i)) [0..<length ?m2]"
    using res pos by (simp add: calc_pq_values_def Let_def q_def)
  have mset2: "mset ?m2 = mset ?m1" using perm by blast
  then have len: "length ?m2 = length ms"
    by (metis length_map size_mset)
  have set2: "set ?m2 = set ?m1" using mset2 by (metis set_mset_mset)
  have ev: "\<forall>m. Some m \<in> set ms' \<longrightarrow> evalue m = dmul (of_c_int n) (pvalue m)"
  proof (intro allI impI)
    fix m assume "Some m \<in> set ms'"
    then obtain i where i: "i < length ?m2" "Some m = map_option (\<lambda>m. m\<lparr>qvalue := q i\<rparr>) (?m2 ! i)"
      unfolding ms' by auto
    then obtain m2 where m2: "?m2 ! i = Some m2" "m = m2\<lparr>qvalue := q i\<rparr>"
      by (cases "?m2 ! i") auto
    from i(1) m2(1) have "Some m2 \<in> set ?m2" by (metis nth_mem)
    with set2 have "Some m2 \<in> set ?m1" by simp
    then obtain x where x: "Some m2 = map_option (set_pq e ?evd dp n) x" by auto
    obtain m0 where "m2 = set_pq e ?evd dp n m0" using x by (cases x) auto
    with m2(2) show "evalue m = dmul (of_c_int n) (pvalue m)"
      by (simp add: set_pq_evalue)
  qed
  from ms' len ev show ?thesis by simp
qed

text \<open>
  C8. When matches were retained and the fit to the synthetic background succeeded
  (\<open>evd_set.n > 0\<close>), \<^verbatim>\<open>evd_set.N\<close> is \<^verbatim>\<open>score_set->num_scores_seen\<close>, every retained
  match is reported, and the E-value of each is \<open>N * pvalue\<close> with that \<open>N\<close>.
  \<^verbatim>\<open>qsort\<close> is assumed to return a permutation of its input.
\<close>

theorem evalue_is_num_scores_seen_times_pvalue:
  assumes "\<forall>xs. mset (qsort_matches e xs) = mset xs"
    and "mcast_match_heap st = Some h"
    and "node_list h \<noteq> []"
    and "mcast_generate_synth_seq e a (the_score_set st) (prng st) = Inr ev"
    and "0 < evd_n ev"
    and "mcast_finish e options a mk dp st = Inr rep"
  shows "evd_N (rep_evd_set rep) = num_scores_seen (the_score_set st)
         \<and> length (rep_matches rep) = length (node_list h)
         \<and> (\<forall>m. Some m \<in> set (rep_matches rep) \<longrightarrow>
               evalue m = dmul (of_c_int (num_scores_seen (the_score_set st))) (pvalue m))"
proof -
  let ?N = "num_scores_seen (the_score_set st)"
  from mcast_finish_cases [OF assms(2) assms(6)] assms(3,4,5)
  have eq: "(rep_matches rep, rep_evd_set rep) =
            calc_pq_values e (map Some (node_list h)) (ev\<lparr>evd_N := ?N\<rparr>) (the_score_set st) dp ?N"
    by auto
  have pos: "0 < evd_n (ev\<lparr>evd_N := ?N\<rparr>)" using assms(5) by simp
  have "evd_N (rep_evd_set rep) = evd_N (ev\<lparr>evd_N := ?N\<rparr>)"
    using calc_pq_values_evd_N [of e "map Some (node_list h)" "ev\<lparr>evd_N := ?N\<rparr>" "the_score_set st" dp ?N]
    by (simp add: eq [symmetric])
  then show ?thesis
    using calc_pq_values_evalue [OF assms(1) pos eq] by simp
qed

theorem evalue_is_num_scores_seen_times_pvalue_witness:
  "(\<forall>xs. mset (qsort_matches example_env xs) = mset xs)
   \<and> mcast_generate_synth_seq example_env alph_dna
        (the_score_set ((example_state 4)\<lparr>mcast_match_heap :=
              Some \<lparr>max_size = 4, node_list = [match_with_pvalue NaN]\<rparr>,
            the_score_set := (example_score_set 4)\<lparr>num_scores_seen := 7\<rparr>\<rparr>))
        example_prng = Inr example_evd_set
   \<and> 0 < evd_n example_evd_set
   \<and> mcast_finish example_env
        \<lparr>motif_format = MEME_FORMAT, text_only = True, max_stored_scores = 4, p_thresh = Num 1\<rparr>
        alph_dna False (Num 2)
        ((example_state 4)\<lparr>mcast_match_heap :=
              Some \<lparr>max_size = 4, node_list = [match_with_pvalue NaN]\<rparr>,
            the_score_set := (example_score_set 4)\<lparr>num_scores_seen := 7\<rparr>\<rparr>)
      = Inr \<lparr>rep_matches = [Some ((match_with_pvalue (Num (1/10)))\<lparr>evalue := Num (7/10), qvalue := Num (1/10)\<rparr>)],
             rep_evd_set = example_evd_set\<lparr>evd_N := 7, min_e := Num 10000000000\<rparr>,
             stats_available = True, rep_p_thresh = Num 1\<rparr>
   \<and> evalue ((match_with_pvalue (Num (1/10)))\<lparr>evalue := Num (7/10), qvalue := Num (1/10)\<rparr>)
      = dmul (of_c_int 7) (Num (1/10))"
proof -
  let ?h = "\<lparr>max_size = 4, node_list = [match_with_pvalue NaN]\<rparr>"
  let ?st = "(example_state 4)\<lparr>mcast_match_heap := Some ?h,
            the_score_set := (example_score_set 4)\<lparr>num_scores_seen := 7\<rparr>\<rparr>"
  let ?o = "\<lparr>motif_format = MEME_FORMAT, text_only = True, max_stored_scores = 4, p_thresh = Num 1\<rparr>"
  let ?m = "(match_with_pvalue (Num (1/10)))\<lparr>evalue := Num (7/10), qvalue := Num (1/10)\<rparr>"
  let ?rep = "\<lparr>rep_matches = [Some ?m],
             rep_evd_set = example_evd_set\<lparr>evd_N := 7, min_e := Num 10000000000\<rparr>,
             stats_available = True, rep_p_thresh = Num 1\<rparr>"
  have a1: "\<forall>xs. mset (qsort_matches example_env xs) = mset xs"
    by (simp add: example_env_def)
  have a2: "mcast_match_heap ?st = Some ?h" by simp
  have a3: "node_list ?h \<noteq> []" by simp
  have a4: "mcast_generate_synth_seq example_env alph_dna (the_score_set ?st) (prng ?st) = Inr example_evd_set"
    by (simp add: mcast_generate_synth_seq_def alph_dna_def alph_size_core_def alph_size_pairs_def
          example_env_def)
  have a5: "0 < evd_n example_evd_set" by (simp add: example_evd_set_def)
  have a6: "mcast_finish example_env ?o alph_dna False (Num 2) ?st = Inr ?rep"
    by (simp add: mcast_finish_def mcast_generate_synth_seq_def alph_dna_def alph_size_core_def
          alph_size_pairs_def get_num_nodes_def pop_heap_root_def mcast_print_results_def
          calc_pq_values_def set_pq_def example_pvalue_def match_with_pvalue_def of_c_int_def
          example_evd_set_def example_score_set_def IGNORE_QUERY_LENGTH_def
          example_env_def example_state_def scan_init_def Let_def numeral_2_eq_2 One_nat_def)
  have p: "prng ?st = example_prng" by (simp add: example_state_def scan_init_def)
  show ?thesis
    using a1 a4 a5 a6 p evalue_is_num_scores_seen_times_pvalue [OF a1 a2 a3 a4 a5 a6]
    by (simp add: of_c_int_def match_with_pvalue_def)
qed

lemma alph_equal_dna_sizes:
  assumes "alph_equal alph_dna a"
  shows "alph_size_core a = 4 \<and> alph_size_pairs a = 2"
proof -
  from assms have "alph_core a = ''ACGT''"
    and "alph_pairs a = [(CHR ''A'', CHR ''T''), (CHR ''C'', CHR ''G'')]"
    by (simp_all add: alph_equal_def alph_dna_def)
  then show ?thesis by (simp add: alph_size_core_def alph_size_pairs_def)
qed

lemma read_motifs_alphabet:
  "read_motifs options mf = Inr (alph, k) \<Longrightarrow> alph_size_core alph = 4 \<and> alph_size_pairs alph = 2"
  using alph_equal_dna_sizes [of alph] alph_equal_dna_sizes [of alph_dna]
  by (auto simp: read_motifs_def Let_def alph_equal_def split: motif_format.splits if_splits)

lemma main_prog_scan_reads_motifs:
  "Real_scan \<in> set (fst (main_prog e options mf mk mk2 dp ss0 fill evd0 g segs)) \<Longrightarrow>
   \<exists>alph k. read_motifs options mf = Inr (alph, k)"
  by (auto simp: main_prog_def split: sum.splits prod.splits)

text \<open>
  C9. \<^verbatim>\<open>read_motifs\<close> accepts a MEME motif file only if its alphabet equals the DNA
  alphabet, and uses the DNA alphabet for a TRANSFAC file. So an alphabet that does
  not have exactly 4 core symbols in 2 complementary pairs ends the run with a
  fatal error in \<^verbatim>\<open>read_motifs\<close>, before \<^verbatim>\<open>mcast\<close> is called, and every run that
  enters the scan of the real sequences has such an alphabet. (The test in
  \<^verbatim>\<open>mcast_generate_synth_seq\<close> itself comes after that scan.)
\<close>

theorem bad_alphabet_fatal_before_scan:
  "(motif_format options = MEME_FORMAT
      \<and> (alph_size_core (mread_get_alphabet mf) \<noteq> 4 \<or> alph_size_pairs (mread_get_alphabet mf) \<noteq> 2) \<longrightarrow>
      main_prog e options mf mk mk2 dp ss0 fill evd0 g segs
        = ([Read_motifs], Inl (Die ''The provided motifs don't seem to be in the DNA alphabet.'')))
   \<and> (Real_scan \<in> set (fst (main_prog e options mf mk mk2 dp ss0 fill evd0 g segs)) \<longrightarrow>
        (\<exists>alph k. read_motifs options mf = Inr (alph, k)
           \<and> alph_size_core alph = 4 \<and> alph_size_pairs alph = 2))"
proof -
  have p1: "motif_format options = MEME_FORMAT
      \<and> (alph_size_core (mread_get_alphabet mf) \<noteq> 4 \<or> alph_size_pairs (mread_get_alphabet mf) \<noteq> 2) \<longrightarrow>
      main_prog e options mf mk mk2 dp ss0 fill evd0 g segs
        = ([Read_motifs], Inl (Die ''The provided motifs don't seem to be in the DNA alphabet.''))"
    using alph_equal_dna_sizes [of "mread_get_alphabet mf"]
    by (auto simp: main_prog_def read_motifs_def Let_def)
  have p3: "Real_scan \<in> set (fst (main_prog e options mf mk mk2 dp ss0 fill evd0 g segs)) \<longrightarrow>
        (\<exists>alph k. read_motifs options mf = Inr (alph, k)
           \<and> alph_size_core alph = 4 \<and> alph_size_pairs alph = 2)"
    using main_prog_scan_reads_motifs read_motifs_alphabet by blast
  show ?thesis by (intro conjI p1 p3)
qed

theorem bad_alphabet_fatal_before_scan_witness:
  "(alph_size_core (mread_get_alphabet example_protein_motifs) \<noteq> 4
    \<and> main_prog example_env example_options example_protein_motifs False False (Num 2)
         (example_score_set 4) example_score_entry example_evd_set example_prng []
        = ([Read_motifs], Inl (Die ''The provided motifs don't seem to be in the DNA alphabet.'')))
   \<and> (Real_scan \<in> set (fst (main_prog example_env example_options example_dna_motifs False False (Num 2)
         (example_score_set 4) example_score_entry example_evd_set example_prng []))
    \<and> (\<exists>alph k. read_motifs example_options example_dna_motifs = Inr (alph, k)
           \<and> alph_size_core alph = 4 \<and> alph_size_pairs alph = 2))"
proof -
  have bad: "alph_size_core (mread_get_alphabet example_protein_motifs) \<noteq> 4"
    by (simp add: example_protein_motifs_def alph_size_core_def)
  have fmt: "motif_format example_options = MEME_FORMAT"
    by (simp add: example_options_def)
  have rd: "read_motifs example_options example_dna_motifs = Inr (alph_dna, 3)"
    by (simp add: read_motifs_def example_options_def example_dna_motifs_def alph_equal_def)
  have scan: "Real_scan \<in> set (fst (main_prog example_env example_options example_dna_motifs False False
         (Num 2) (example_score_set 4) example_score_entry example_evd_set example_prng []))"
    by (simp add: main_prog_def rd mcast_def mcast_read_and_score_def Let_def)
  show ?thesis
    using bad fmt scan
      bad_alphabet_fatal_before_scan [where options = example_options and mf = example_protein_motifs
        and e = example_env and mk = False and ?mk2.0 = False and dp = "Num 2"
        and ?ss0.0 = "example_score_set 4" and fill = example_score_entry and ?evd0.0 = example_evd_set
        and g = example_prng and segs = "[]"]
      bad_alphabet_fatal_before_scan [where options = example_options and mf = example_dna_motifs
        and e = example_env and mk = False and ?mk2.0 = False and dp = "Num 2"
        and ?ss0.0 = "example_score_set 4" and fill = example_score_entry and ?evd0.0 = example_evd_set
        and g = example_prng and segs = "[]"]
    by blast
qed

subsection \<open>Insertion into the heap\<close>

lemma mset_heap_place: "mset (heap_place r xs) = add_mset r (mset xs)"
  by (induction xs) auto

lemma set_heap_place: "set (heap_place r xs) = insert r (set xs)"
  by (induction xs) auto

lemma length_heap_place: "length (heap_place r xs) = Suc (length xs)"
  by (induction xs) auto

lemma heap_ordered_heap_place: "heap_ordered xs \<Longrightarrow> heap_ordered (heap_place r xs)"
proof (induction xs)
  case Nil
  then show ?case by (simp add: heap_ordered_def)
next
  case (Cons x xs)
  show ?case
  proof (cases "sig_le (pvalue r) (pvalue x)")
    case True
    with Cons show ?thesis
      by (auto simp: heap_ordered_Cons set_heap_place)
  next
    case False
    then have rx: "sig_le (pvalue x) (pvalue r)" using sig_le_total by blast
    have "\<forall>y\<in>set xs. sig_le (pvalue y) (pvalue r)"
      using Cons.prems rx sig_le_trans by (auto simp: heap_ordered_Cons)
    with False rx Cons.prems show ?thesis
      by (simp add: heap_ordered_Cons)
  qed
qed

lemma heap_ordered_tl: "heap_ordered xs \<Longrightarrow> heap_ordered (tl xs)"
  by (cases xs) (simp_all add: heap_ordered_Cons)

lemma add_node_heap_max_size [simp]: "max_size (add_node_heap h r) = max_size h"
  by (simp add: add_node_heap_def)

lemma add_node_heap_room:
  "length (node_list h) < max_size h \<Longrightarrow> node_list (add_node_heap h r) = heap_place r (node_list h)"
  by (simp add: add_node_heap_def)

lemma add_node_heap_length:
  "length (node_list h) \<le> max_size h \<Longrightarrow> length (node_list (add_node_heap h r)) \<le> max_size h"
  by (auto simp: add_node_heap_def length_heap_place)

lemma add_node_heap_ordered:
  "heap_ordered (node_list h) \<Longrightarrow> heap_ordered (node_list (add_node_heap h r))"
  by (simp add: add_node_heap_def heap_ordered_heap_place heap_ordered_tl)

lemma add_node_heap_set:
  "set (node_list (add_node_heap h r)) \<subseteq> insert r (set (node_list h))"
proof -
  have "set (tl (heap_place r (node_list h))) \<subseteq> set (heap_place r (node_list h))"
    by (cases "heap_place r (node_list h)") auto
  then show ?thesis
    by (auto simp: add_node_heap_def set_heap_place)
qed

lemma reinsert_loop_max_size [simp]: "max_size (reinsert_loop h ms) = max_size h"
  by (induction ms arbitrary: h) auto

lemma reinsert_loop_mset:
  "length (node_list h) + length ms \<le> max_size h \<Longrightarrow>
   mset (node_list (reinsert_loop h ms)) = mset (node_list h) + mset ms"
proof (induction ms arbitrary: h)
  case Nil
  then show ?case by simp
next
  case (Cons m ms)
  then have room: "length (node_list h) < max_size h" by simp
  have nl: "node_list (add_node_heap h m) = heap_place m (node_list h)"
    using room by (rule add_node_heap_room)
  have "length (node_list (add_node_heap h m)) + length ms \<le> max_size (add_node_heap h m)"
    using Cons.prems by (simp add: nl length_heap_place)
  from Cons.IH [OF this] show ?case
    by (simp add: nl mset_heap_place)
qed

lemma reinsert_loop_ordered:
  "heap_ordered (node_list h) \<Longrightarrow> heap_ordered (node_list (reinsert_loop h ms))"
  by (induction ms arbitrary: h) (auto simp: add_node_heap_ordered)

lemma reinsert_loop_set:
  "set (node_list (reinsert_loop h ms)) \<subseteq> set (node_list h) \<union> set ms"
proof (induction ms arbitrary: h)
  case Nil
  then show ?case by simp
next
  case (Cons m ms)
  show ?case
    using Cons.IH [of "add_node_heap h m"] add_node_heap_set [of h m] by auto
qed

lemma reinsert_loop_length:
  "length (node_list h) \<le> max_size h \<Longrightarrow> length (node_list (reinsert_loop h ms)) \<le> max_size h"
proof (induction ms arbitrary: h)
  case Nil
  then show ?case by simp
next
  case (Cons m ms)
  show ?case
    using Cons.IH [of "add_node_heap h m"] add_node_heap_length [OF Cons.prems, of m] by simp
qed


subsection \<open>The provisional fit\<close>

lemma init_distr_step_done: "got_init_evd st \<Longrightarrow> init_distr_step e dp st = Some st"
  by (simp add: init_distr_step_def split: option.splits)

lemma rescore_match_explicit:
  "rescore_match e evd dp =
     (\<lambda>m. m\<lparr>gc_bin := evd_set_bin e (gc m) evd,
              pvalue := evd_set_pvalue e (dsub (score m) dp) (gc m) 1 evd\<rparr>)"
  by (rule ext) (simp add: rescore_match_def Let_def IGNORE_QUERY_LENGTH_def)

lemma init_distr_step_rescores:
  assumes hp: "mcast_match_heap st = Some h"
    and len: "length (node_list h) \<le> max_size h"
    and full: "max_scores_saved (the_score_set st) \<le> ss_n (the_score_set st)"
    and nogot: "\<not> got_init_evd st"
    and fit: "0 < evd_n (calc_distr e (the_score_set st))"
  shows "\<exists>h'. init_distr_step e dp st =
           Some (st\<lparr>stderr := stderr st @ [Initial_distribution_calculation],
                    initial_evd_set := calc_distr e (the_score_set st),
                    mcast_match_heap := Some h', got_init_evd := True\<rparr>)
         \<and> mset (node_list h') =
             image_mset (\<lambda>m. m\<lparr>gc_bin := evd_set_bin e (gc m) (calc_distr e (the_score_set st)),
                                pvalue := evd_set_pvalue e (dsub (score m) dp) (gc m) 1
                                            (calc_distr e (the_score_set st))\<rparr>)
               (mset (node_list h))
         \<and> heap_ordered (node_list h')
         \<and> max_size h' = max_size h"
proof -
  let ?evd = "calc_distr e (the_score_set st)"
  let ?h' = "reinsert_loop (h\<lparr>node_list := []\<rparr>) (map (rescore_match e ?evd dp) (node_list h))"
  have step: "init_distr_step e dp st =
           Some (st\<lparr>stderr := stderr st @ [Initial_distribution_calculation],
                    initial_evd_set := ?evd, mcast_match_heap := Some ?h', got_init_evd := True\<rparr>)"
    using hp full nogot fit by (simp add: init_distr_step_def calc_init_distr_closed)
  have "length (node_list (h\<lparr>node_list := []\<rparr>)) + length (map (rescore_match e ?evd dp) (node_list h))
          \<le> max_size (h\<lparr>node_list := []\<rparr>)"
    using len by simp
  from reinsert_loop_mset [OF this]
  have "mset (node_list ?h') = image_mset (rescore_match e ?evd dp) (mset (node_list h))"
    by simp
  then have ms: "mset (node_list ?h') =
             image_mset (\<lambda>m. m\<lparr>gc_bin := evd_set_bin e (gc m) ?evd,
                                pvalue := evd_set_pvalue e (dsub (score m) dp) (gc m) 1 ?evd\<rparr>)
               (mset (node_list h))"
    by (simp only: rescore_match_explicit)
  have "heap_ordered (node_list (h\<lparr>node_list := []\<rparr>))" by (simp add: heap_ordered_def)
  then have ord: "heap_ordered (node_list ?h')" by (rule reinsert_loop_ordered)
  have mx: "max_size ?h' = max_size h" by simp
  from step ms ord mx show ?thesis by blast
qed

lemma save_match_keeps_fit:
  "save_match m st = Some st' \<Longrightarrow>
   got_init_evd st' = got_init_evd st \<and> initial_evd_set st' = initial_evd_set st
   \<and> count_list (stderr st') Initial_distribution_calculation
       = count_list (stderr st) Initial_distribution_calculation"
  by (auto simp: save_match_def Let_def split: option.splits if_splits)

lemma save_score_keeps_fit:
  "save_score e w pm v st = (g, st') \<Longrightarrow>
   got_init_evd st' = got_init_evd st \<and> initial_evd_set st' = initial_evd_set st
   \<and> stderr st' = stderr st \<and> mcast_match_heap st' = mcast_match_heap st"
  by (auto simp: save_score_def Let_def split: if_splits prod.splits)

lemma process_match_keeps_fit:
  assumes "got_init_evd st" "process_match e dp w pm st = Some (c, st')"
  shows "got_init_evd st' \<and> initial_evd_set st' = initial_evd_set st
         \<and> count_list (stderr st') Initial_distribution_calculation
             = count_list (stderr st) Initial_distribution_calculation"
proof (cases "(\<not> is_complete_seq w \<and> get_start_match pm > w_seq_length w - OVERLAP_SIZE e)
              \<or> get_start_match pm = start_pos st")
  case True
  with assms show ?thesis by (auto simp: process_match_def split: if_splits)
next
  case False
  let ?st0 = "st\<lparr>start_pos := get_end_match pm + 1\<rparr>"
  let ?v = "dsub (get_score pm) dp"
  obtain g st1 where s1: "save_score e w pm ?v ?st0 = (g, st1)"
    by (cases "save_score e w pm ?v ?st0") auto
  from save_score_keeps_fit [OF s1] assms(1)
  have k1: "got_init_evd st1" "initial_evd_set st1 = initial_evd_set st" "stderr st1 = stderr st"
    by simp_all
  have s2: "init_distr_step e dp st1 = Some st1"
    using k1(1) by (rule init_distr_step_done)
  obtain pv gb where s3: "match_pvalue e ?v g st1 = (pv, gb)"
    by (cases "match_pvalue e ?v g st1") auto
  from assms(2) False s1 s2 s3
  have "save_match (build_mcast_match e dp w pm ?v pv g gb) st1 = Some st'"
    by (auto simp: process_match_def Let_def)
  from save_match_keeps_fit [OF this] k1 show ?thesis by simp
qed

lemma match_loop_keeps_fit:
  "got_init_evd st \<Longrightarrow> match_loop e dp w pms st = Some st' \<Longrightarrow>
   got_init_evd st' \<and> initial_evd_set st' = initial_evd_set st
   \<and> count_list (stderr st') Initial_distribution_calculation
       = count_list (stderr st) Initial_distribution_calculation"
proof (induction pms arbitrary: st)
  case Nil
  then show ?case by simp
next
  case (Cons pm pms)
  obtain c st1 where p: "process_match e dp w pm st = Some (c, st1)"
    using process_match_total by blast
  note k = process_match_keeps_fit [OF Cons.prems(1) p]
  show ?case
  proof (cases c)
    case Break
    with p Cons.prems(2) have "st' = st1" by simp
    with k show ?thesis by simp
  next
    case Continue
    with p Cons.prems(2) have "match_loop e dp w pms st1 = Some st'" by simp
    from Cons.IH [OF _ this] k show ?thesis by simp
  qed
qed

lemma next_segment_keeps_fit:
  "got_init_evd (next_segment e w st) = got_init_evd st
   \<and> initial_evd_set (next_segment e w st) = initial_evd_set st
   \<and> stderr (next_segment e w st) = stderr st"
  by (simp add: next_segment_def Let_def)

lemma scan_segments_keeps_fit:
  "got_init_evd st \<Longrightarrow> scan_segments e dp segs st = Some st' \<Longrightarrow>
   got_init_evd st' \<and> initial_evd_set st' = initial_evd_set st
   \<and> count_list (stderr st') Initial_distribution_calculation
       = count_list (stderr st) Initial_distribution_calculation"
proof (induction segs arbitrary: st)
  case Nil
  then show ?case by simp
next
  case (Cons seg segs)
  obtain w pms where seg: "seg = (w, pms)" by (cases seg)
  from Cons.prems(2) seg obtain st1 where
    m: "match_loop e dp w pms st = Some st1"
    and r: "scan_segments e dp segs (next_segment e w st1) = Some st'"
    by (auto split: option.splits)
  note k = match_loop_keeps_fit [OF Cons.prems(1) m]
  have "got_init_evd (next_segment e w st1)" using k next_segment_keeps_fit by simp
  from Cons.IH [OF this r] k show ?case by (simp add: next_segment_keeps_fit)
qed

lemma save_match_score_set2:
  "save_match m st = Some st' \<Longrightarrow> the_score_set st' = the_score_set st"
  by (auto simp: save_match_def Let_def split: option.splits if_splits)

lemma init_distr_step_fit:
  assumes "mcast_match_heap st \<noteq> None" "max_scores_saved (the_score_set st) \<le> ss_n (the_score_set st)"
    "\<not> got_init_evd st" "init_distr_step e dp st = Some st'"
  shows "initial_evd_set st' = calc_distr e (the_score_set st)
         \<and> got_init_evd st' = (0 < evd_n (calc_distr e (the_score_set st)))
         \<and> the_score_set st' = the_score_set st
         \<and> stderr st' = stderr st @ [Initial_distribution_calculation]"
  using assms by (auto simp: init_distr_step_def calc_init_distr_closed split: option.splits)

lemma process_match_fills_reservoir:
  assumes hp: "mcast_match_heap st \<noteq> None"
    and nogot: "\<not> got_init_evd st"
    and before: "ss_n (the_score_set st) < max_scores_saved (the_score_set st)"
    and res: "process_match e dp w pm st = Some (c, st')"
    and after: "max_scores_saved (the_score_set st') \<le> ss_n (the_score_set st')"
  shows "initial_evd_set st' = calc_distr e (the_score_set st')
         \<and> got_init_evd st' = (0 < evd_n (calc_distr e (the_score_set st')))
         \<and> count_list (stderr st') Initial_distribution_calculation
             = Suc (count_list (stderr st) Initial_distribution_calculation)"
proof (cases "(\<not> is_complete_seq w \<and> get_start_match pm > w_seq_length w - OVERLAP_SIZE e)
              \<or> get_start_match pm = start_pos st")
  case True
  with res have "the_score_set st' = the_score_set st"
    by (auto simp: process_match_def split: if_splits)
  with before after show ?thesis by simp
next
  case False
  let ?st0 = "st\<lparr>start_pos := get_end_match pm + 1\<rparr>"
  let ?v = "dsub (get_score pm) dp"
  obtain g st1 where s1: "save_score e w pm ?v ?st0 = (g, st1)"
    by (cases "save_score e w pm ?v ?st0") auto
  obtain st2 where s2: "init_distr_step e dp st1 = Some st2"
    using init_distr_step_total by blast
  obtain pv gb where s3: "match_pvalue e ?v g st2 = (pv, gb)"
    by (cases "match_pvalue e ?v g st2") auto
  from res False s1 s2 s3
  have s4: "save_match (build_mcast_match e dp w pm ?v pv g gb) st2 = Some st'"
    by (auto simp: process_match_def Let_def)
  from save_score_keeps_fit [OF s1] hp nogot
  have k1: "\<not> got_init_evd st1" "stderr st1 = stderr st" "mcast_match_heap st1 \<noteq> None" by simp_all
  have e2: "the_score_set st2 = the_score_set st1"
    using init_distr_step_score_set [OF s2] by simp
  have e3: "the_score_set st' = the_score_set st2"
    using save_match_score_set2 [OF s4] .
  have full1: "max_scores_saved (the_score_set st1) \<le> ss_n (the_score_set st1)"
    using after e2 e3 by simp
  note f = init_distr_step_fit [OF k1(3) full1 k1(1) s2]
  note k4 = save_match_keeps_fit [OF s4]
  from f k4 k1 e2 e3 show ?thesis by simp
qed

text \<open>
  C4. (1) At the match that fills the reservoir (\<open>n\<close> reaches \<^verbatim>\<open>max_scores_saved\<close>)
  while scanning with a heap and without a provisional fit, the fit is computed from
  the reservoir as it then is. (2) When the fit succeeds (\<open>evd_set.n > 0\<close>), the heap
  afterwards holds exactly the records it held before, each with its GC bin set to
  \<^verbatim>\<open>evd_set_bin(gc, evd_set)\<close> and its p-value set to
  \<^verbatim>\<open>evd_set_pvalue(score - dp_thresh, gc, 1, evd_set)\<close> for the new EVD set and nothing
  else changed, reinserted in heap order, and \<^verbatim>\<open>got_init_evd\<close> is set. (3) Once
  \<^verbatim>\<open>got_init_evd\<close> is set the step does nothing, and (4) through the rest of the scan
  the flag stays set, the provisional EVD set is not replaced and no further "Initial
  distribution calculation" is logged.
\<close>

theorem provisional_fit_rescoring_once:
  "(mcast_match_heap st \<noteq> None \<and> \<not> got_init_evd st
      \<and> ss_n (the_score_set st) < max_scores_saved (the_score_set st)
      \<and> process_match e dp w pm st = Some (c, st')
      \<and> max_scores_saved (the_score_set st') \<le> ss_n (the_score_set st') \<longrightarrow>
        initial_evd_set st' = calc_distr e (the_score_set st')
        \<and> got_init_evd st' = (0 < evd_n (calc_distr e (the_score_set st')))
        \<and> count_list (stderr st') Initial_distribution_calculation
             = Suc (count_list (stderr st) Initial_distribution_calculation))
   \<and> (mcast_match_heap st = Some h \<and> length (node_list h) \<le> max_size h
      \<and> max_scores_saved (the_score_set st) \<le> ss_n (the_score_set st)
      \<and> \<not> got_init_evd st \<and> 0 < evd_n (calc_distr e (the_score_set st)) \<longrightarrow>
        (\<exists>h'. init_distr_step e dp st =
           Some (st\<lparr>stderr := stderr st @ [Initial_distribution_calculation],
                    initial_evd_set := calc_distr e (the_score_set st),
                    mcast_match_heap := Some h', got_init_evd := True\<rparr>)
         \<and> mset (node_list h') =
             image_mset (\<lambda>m. m\<lparr>gc_bin := evd_set_bin e (gc m) (calc_distr e (the_score_set st)),
                                pvalue := evd_set_pvalue e (dsub (score m) dp) (gc m) 1
                                            (calc_distr e (the_score_set st))\<rparr>)
               (mset (node_list h))
         \<and> heap_ordered (node_list h')
         \<and> max_size h' = max_size h))
   \<and> (got_init_evd st \<longrightarrow> init_distr_step e dp st = Some st)
   \<and> (got_init_evd st \<and> scan_segments e dp segs st = Some st2 \<longrightarrow>
        got_init_evd st2 \<and> initial_evd_set st2 = initial_evd_set st
        \<and> count_list (stderr st2) Initial_distribution_calculation
            = count_list (stderr st) Initial_distribution_calculation)"
  using process_match_fills_reservoir [of st e dp w pm c st']
        init_distr_step_rescores [of st h e dp]
        init_distr_step_done [of st e dp]
        scan_segments_keeps_fit [of st e dp segs st2]
  by (intro conjI impI) blast+


theorem provisional_fit_rescoring_once_witness:
  "(mcast_match_heap (example_after [example_raw_match 5 20 (Num 12)]) \<noteq> None
    \<and> \<not> got_init_evd (example_after [example_raw_match 5 20 (Num 12)])
    \<and> ss_n (the_score_set (example_after [example_raw_match 5 20 (Num 12)])) < max_scores_saved (the_score_set (example_after [example_raw_match 5 20 (Num 12)]))
    \<and> map_option (map pvalue \<circ> node_list) (mcast_match_heap (example_after [example_raw_match 5 20 (Num 12)])) = Some [NaN]
    \<and> map_option (map gc_bin \<circ> node_list) (mcast_match_heap (example_after [example_raw_match 5 20 (Num 12)])) = Some [- 1]
    \<and> process_match example_env (Num 2) (example_window True) (example_raw_match 30 50 (Num 22)) (example_after [example_raw_match 5 20 (Num 12)])
        = Some (Continue, (example_after [example_raw_match 5 20 (Num 12), example_raw_match 30 50 (Num 22)]))
    \<and> max_scores_saved (the_score_set (example_after [example_raw_match 5 20 (Num 12), example_raw_match 30 50 (Num 22)])) \<le> ss_n (the_score_set (example_after [example_raw_match 5 20 (Num 12), example_raw_match 30 50 (Num 22)]))
    \<and> 0 < evd_n (calc_distr example_env (the_score_set (example_after [example_raw_match 5 20 (Num 12), example_raw_match 30 50 (Num 22)])))
    \<and> got_init_evd (example_after [example_raw_match 5 20 (Num 12), example_raw_match 30 50 (Num 22)])
    \<and> initial_evd_set (example_after [example_raw_match 5 20 (Num 12), example_raw_match 30 50 (Num 22)]) = example_evd_set
    \<and> count_list (stderr (example_after [example_raw_match 5 20 (Num 12), example_raw_match 30 50 (Num 22)])) Initial_distribution_calculation = 1
    \<and> map_option (map pvalue \<circ> node_list) (mcast_match_heap (example_after [example_raw_match 5 20 (Num 12), example_raw_match 30 50 (Num 22)]))
        = Some [Num (1/12), Num (1/22)]
    \<and> map_option (map gc_bin \<circ> node_list) (mcast_match_heap (example_after [example_raw_match 5 20 (Num 12), example_raw_match 30 50 (Num 22)])) = Some [0, 0])
   \<and> (\<exists>h'. init_distr_step example_env (Num 2) (snd (save_score example_env (example_window True) (example_raw_match 30 50 (Num 22)) (Num 20)
              ((example_after [example_raw_match 5 20 (Num 12)])\<lparr>start_pos := 51\<rparr>)))
         = Some ((snd (save_score example_env (example_window True) (example_raw_match 30 50 (Num 22)) (Num 20)
              ((example_after [example_raw_match 5 20 (Num 12)])\<lparr>start_pos := 51\<rparr>)))
                  \<lparr>stderr := [Initial_distribution_calculation],
                    initial_evd_set := example_evd_set,
                    mcast_match_heap := Some h', got_init_evd := True\<rparr>)
        \<and> map pvalue (node_list h') = [Num (1/12)] \<and> map gc_bin (node_list h') = [0])
   \<and> init_distr_step example_env (Num 2) (example_after [example_raw_match 5 20 (Num 12), example_raw_match 30 50 (Num 22)]) = Some (example_after [example_raw_match 5 20 (Num 12), example_raw_match 30 50 (Num 22)])
   \<and> (\<exists>st2. scan_segments example_env (Num 2) [(example_window True, [example_raw_match 60 80 (Num 32), example_raw_match 90 110 (Num 42)])] (example_after [example_raw_match 5 20 (Num 12), example_raw_match 30 50 (Num 22)])
            = Some st2
        \<and> got_init_evd st2 \<and> initial_evd_set st2 = example_evd_set
        \<and> count_list (stderr st2) Initial_distribution_calculation = 1
        \<and> map pvalue (freed st2) = [Num (1/12), Num (1/22)])"
proof -
  let ?e = example_env
  let ?w = "example_window True"
  let ?m2 = "example_raw_match 30 50 (Num 22)"
  let ?a1 = "(example_after [example_raw_match 5 20 (Num 12)])"
  let ?a2 = "(example_after [example_raw_match 5 20 (Num 12), example_raw_match 30 50 (Num 22)])"
  let ?mid = "(snd (save_score example_env (example_window True) (example_raw_match 30 50 (Num 22)) (Num 20)
              ((example_after [example_raw_match 5 20 (Num 12)])\<lparr>start_pos := 51\<rparr>)))"
  let ?segs = "[(example_window True, [example_raw_match 60 80 (Num 32), example_raw_match 90 110 (Num 42)])]"
  let ?h = "\<lparr>max_size = 4, node_list = [build_mcast_match ?e (Num 2) ?w (example_raw_match 5 20 (Num 12)) (Num 10) NaN (Num (1/2)) (- 1)]\<rparr>"
  have a1: "mcast_match_heap ?a1 \<noteq> None" "\<not> got_init_evd ?a1"
    "ss_n (the_score_set ?a1) < max_scores_saved (the_score_set ?a1)"
    "map_option (map pvalue \<circ> node_list) (mcast_match_heap ?a1) = Some [NaN]"
    "map_option (map gc_bin \<circ> node_list) (mcast_match_heap ?a1) = Some [- 1]"
    "count_list (stderr ?a1) Initial_distribution_calculation = 0"
    by (simp_all add: example_run_defs example_fit_state_def example_after_def)
  have pm: "process_match ?e (Num 2) ?w ?m2 ?a1 = Some (Continue, ?a2)"
    by (simp add: example_run_defs example_fit_state_def example_after_def)
  have a2: "max_scores_saved (the_score_set ?a2) \<le> ss_n (the_score_set ?a2)"
    "0 < evd_n (calc_distr ?e (the_score_set ?a2))"
    "calc_distr ?e (the_score_set ?a2) = example_evd_set"
    "map_option (map pvalue \<circ> node_list) (mcast_match_heap ?a2) = Some [Num (1/12), Num (1/22)]"
    "map_option (map gc_bin \<circ> node_list) (mcast_match_heap ?a2) = Some [0, 0]"
    by (simp_all add: example_run_defs example_fit_state_def example_after_def)
  have mid: "mcast_match_heap ?mid = Some ?h" "length (node_list ?h) \<le> max_size ?h"
    "max_scores_saved (the_score_set ?mid) \<le> ss_n (the_score_set ?mid)" "\<not> got_init_evd ?mid"
    "0 < evd_n (calc_distr ?e (the_score_set ?mid))"
    "calc_distr ?e (the_score_set ?mid) = example_evd_set" "stderr ?mid = []"
    by (simp_all add: example_run_defs example_fit_state_def example_after_def)
  have rs: "image_mset (\<lambda>m. m\<lparr>gc_bin := evd_set_bin ?e (gc m) example_evd_set,
                                pvalue := evd_set_pvalue ?e (dsub (score m) (Num 2)) (gc m) 1
                                            example_evd_set\<rparr>)
               (mset (node_list ?h))
            = {#build_mcast_match ?e (Num 2) ?w (example_raw_match 5 20 (Num 12)) (Num 10)
                  (Num (1/12)) (Num (1/2)) 0#}"
    by (simp add: example_run_defs example_fit_state_def example_after_def)
  have a3: "got_init_evd ?a2" "initial_evd_set ?a2 = example_evd_set"
    by (simp_all add: example_run_defs example_fit_state_def example_after_def)
  obtain st2 where run: "scan_segments ?e (Num 2) ?segs ?a2 = Some st2"
    and fr: "map pvalue (freed st2) = [Num (1/12), Num (1/22)]"
    by (simp add: example_run_defs example_fit_state_def example_after_def)
  note t1 = provisional_fit_rescoring_once [where st = ?a1 and e = ?e and dp = "Num 2" and w = ?w
      and pm = ?m2 and c = Continue and st' = ?a2 and h = ?h and segs = ?segs and ?st2.0 = st2]
  note t2 = provisional_fit_rescoring_once [where st = ?mid and e = ?e and dp = "Num 2" and w = ?w
      and pm = ?m2 and c = Continue and st' = ?a2 and h = ?h and segs = ?segs and ?st2.0 = st2]
  note t3 = provisional_fit_rescoring_once [where st = ?a2 and e = ?e and dp = "Num 2" and w = ?w
      and pm = ?m2 and c = Continue and st' = ?a2 and h = ?h and segs = ?segs and ?st2.0 = st2]
  have c1: "got_init_evd ?a2 \<and> initial_evd_set ?a2 = example_evd_set
      \<and> count_list (stderr ?a2) Initial_distribution_calculation = 1"
    using t1 a1(1,2,3,6) pm a2(1,2,3) by simp
  from t2 mid(1,2,3,4,5) obtain h' where
    st: "init_distr_step ?e (Num 2) ?mid =
           Some (?mid\<lparr>stderr := stderr ?mid @ [Initial_distribution_calculation],
                    initial_evd_set := calc_distr ?e (the_score_set ?mid),
                    mcast_match_heap := Some h', got_init_evd := True\<rparr>)"
    and ms: "mset (node_list h') =
             image_mset (\<lambda>m. m\<lparr>gc_bin := evd_set_bin ?e (gc m) (calc_distr ?e (the_score_set ?mid)),
                                pvalue := evd_set_pvalue ?e (dsub (score m) (Num 2)) (gc m) 1
                                            (calc_distr ?e (the_score_set ?mid))\<rparr>)
               (mset (node_list ?h))"
    by blast
  from ms have "mset (node_list h') =
      {#build_mcast_match ?e (Num 2) ?w (example_raw_match 5 20 (Num 12)) (Num 10)
                  (Num (1/12)) (Num (1/2)) 0#}"
    by (simp only: mid(6) rs)
  then have nl: "node_list h' = [build_mcast_match ?e (Num 2) ?w (example_raw_match 5 20 (Num 12))
                  (Num 10) (Num (1/12)) (Num (1/2)) 0]"
    by (simp add: mset_single_iff_right)
  have c2: "\<exists>h'. init_distr_step ?e (Num 2) ?mid
         = Some (?mid\<lparr>stderr := [Initial_distribution_calculation],
                    initial_evd_set := example_evd_set,
                    mcast_match_heap := Some h', got_init_evd := True\<rparr>)
        \<and> map pvalue (node_list h') = [Num (1/12)] \<and> map gc_bin (node_list h') = [0]"
  proof (intro exI conjI)
    show "init_distr_step ?e (Num 2) ?mid
         = Some (?mid\<lparr>stderr := [Initial_distribution_calculation],
                    initial_evd_set := example_evd_set,
                    mcast_match_heap := Some h', got_init_evd := True\<rparr>)"
      using st by (simp only: mid(6,7) append_Nil)
    show "map pvalue (node_list h') = [Num (1/12)]" by (simp add: nl build_mcast_match_def)
    show "map gc_bin (node_list h') = [0]" by (simp add: nl build_mcast_match_def)
  qed
  have c3: "init_distr_step ?e (Num 2) ?a2 = Some ?a2"
    using t3 a3(1) by blast
  have c4: "got_init_evd st2 \<and> initial_evd_set st2 = example_evd_set
        \<and> count_list (stderr st2) Initial_distribution_calculation = 1"
    using t3 a3 run c1 by simp
  have c4': "\<exists>st2. scan_segments ?e (Num 2) ?segs ?a2 = Some st2
        \<and> got_init_evd st2 \<and> initial_evd_set st2 = example_evd_set
        \<and> count_list (stderr st2) Initial_distribution_calculation = 1
        \<and> map pvalue (freed st2) = [Num (1/12), Num (1/22)]"
  proof (intro exI conjI)
    show "scan_segments ?e (Num 2) ?segs ?a2 = Some st2" by (rule run)
    show "got_init_evd st2" using c4 by blast
    show "initial_evd_set st2 = example_evd_set" using c4 by blast
    show "count_list (stderr st2) Initial_distribution_calculation = 1" using c4 by blast
    show "map pvalue (freed st2) = [Num (1/12), Num (1/22)]" by (rule fr)
  qed
  from a1(1,2,3,4,5) pm a2(1,2,4,5) c1 c2 c3 c4' show ?thesis
    by (intro conjI) simp_all
qed


subsection \<open>Purges within a scan\<close>


lemma dlt_or_nan_sig_le: "dlt a b \<or> isnan a \<Longrightarrow> sig_le a b"
  by (cases a; cases b) auto






subsection \<open>The heap and the purge log over a whole scan\<close>












lemma build_mcast_match_pvalue [simp]:
  "pvalue (build_mcast_match e dp w pm v pv g gb) = pv"
  by (simp add: build_mcast_match_def)






lemma create_heap_max_size [simp]: "max_size (create_heap k) = k"
  by (simp add: create_heap_def)













subsection \<open>Purged and retained records\<close>



















subsection \<open>The score reservoir\<close>

lemma c_int_id: "- 2147483648 \<le> i \<Longrightarrow> i < 2147483648 \<Longrightarrow> c_int i = i"
  by (simp add: c_int_def)

lemma array_store_nonneg: "0 \<le> i \<Longrightarrow> array_store a i v = a[nat i := v]"
proof (cases "i < int (length a)")
  case True
  assume "0 \<le> i"
  with True show ?thesis by (simp add: array_store_def)
next
  case False
  assume "0 \<le> i"
  with False have "length a \<le> nat i" by linarith
  then have "a[nat i := v] = a" by (rule list_update_beyond)
  with False show ?thesis by (simp add: array_store_def)
qed

lemma double_to_int_nonneg: "0 \<le> x \<Longrightarrow> double_to_int x = \<lfloor>x\<rfloor>"
  by (simp add: double_to_int_def)

lemma reservoir_slot_fill:
  "ss_n ss < max_scores_saved ss \<Longrightarrow>
   reservoir_slot ss g =
     (True, int (ss_n ss),
      ss\<lparr>num_scores_seen := c_int (num_scores_seen ss + 1), ss_n := ss_n ss + 1\<rparr>, g)"
  by (simp add: reservoir_slot_def Let_def)

lemma reservoir_slot_sample:
  "\<not> ss_n ss < max_scores_saved ss \<Longrightarrow>
   reservoir_slot ss g =
     (double_to_int (real_of_int (c_int (num_scores_seen ss + 1)) * mt_out g (mt_pos g))
        < int (max_scores_saved ss),
      double_to_int (real_of_int (c_int (num_scores_seen ss + 1)) * mt_out g (mt_pos g)),
      ss\<lparr>num_scores_seen := c_int (num_scores_seen ss + 1)\<rparr>,
      g\<lparr>mt_pos := Suc (mt_pos g)\<rparr>)"
  by (simp add: reservoir_slot_def mts_drand_def Let_def)

lemma drawn_index_range:
  assumes "0 \<le> u" "u < 1" "0 < N"
  shows "0 \<le> \<lfloor>real_of_int N * u\<rfloor> \<and> \<lfloor>real_of_int N * u\<rfloor> < N"
proof -
  have "real_of_int N * u < real_of_int N"
    using assms by (simp add: mult_less_cancel_left2)
  then have "\<lfloor>real_of_int N * u\<rfloor> < N"
    by (simp add: floor_less_iff)
  moreover have "0 \<le> \<lfloor>real_of_int N * u\<rfloor>"
    using assms by simp
  ultimately show ?thesis by simp
qed

lemma drawn_index_interval:
  assumes "0 < N"
  shows "(\<lfloor>real_of_int N * u\<rfloor> = j)
         = (real_of_int j / real_of_int N \<le> u \<and> u < (real_of_int j + 1) / real_of_int N)"
proof -
  have "(\<lfloor>real_of_int N * u\<rfloor> = j)
        = (real_of_int j \<le> real_of_int N * u \<and> real_of_int N * u < real_of_int j + 1)"
    by (rule floor_eq_iff)
  also have "\<dots> = (real_of_int j / real_of_int N \<le> u \<and> u < (real_of_int j + 1) / real_of_int N)"
    using assms by (simp add: pos_divide_le_eq pos_less_divide_eq mult.commute)
  finally show ?thesis .
qed

lemma save_score_explicit:
  assumes "dgt v (LOG_SMALL e)"
    and "reservoir_slot (the_score_set st) (prng st) = (sample_score, score_index, ss1, g1)"
  shows "(let start' = max 0 (get_start_match pm - 500);
              end' = min (w_seq_length w - 1) (get_end_match pm + 500);
              gc' = ddiv (dsub (get_seq_gc w end') (get_seq_gc w start'))
                      (Num (real_of_int (end' - start')));
              entry = \<lparr>sc_s = v, sc_t = get_match_seq_length pm, sc_nhits = get_nhits pm,
                       sc_span = get_end_match pm - get_start_match pm + 1,
                       sc_gc = gc', sc_serial_no = serial_no st\<rparr>
          in save_score e w pm v st =
               (gc', if sample_score
                     then st\<lparr>the_score_set :=
                               ss1\<lparr>scores := array_store (scores ss1) score_index entry,
                                   max_t := max (max_t ss1) (get_match_seq_length pm)\<rparr>,
                             prng := g1,
                             serial_no := dadd (serial_no st) (Num 1)\<rparr>
                     else st\<lparr>the_score_set := ss1, prng := g1\<rparr>))"
  using assms by (simp add: save_score_def Let_def of_c_int_def max_def)

lemma save_score_fill:
  assumes "dgt v (LOG_SMALL e)"
    and "ss_n (the_score_set st) < max_scores_saved (the_score_set st)"
    and "0 \<le> num_scores_seen (the_score_set st)"
    and "num_scores_seen (the_score_set st) < 2147483647"
  shows "(let ss = the_score_set st;
              start' = max 0 (get_start_match pm - 500);
              end' = min (w_seq_length w - 1) (get_end_match pm + 500);
              gc' = ddiv (dsub (get_seq_gc w end') (get_seq_gc w start'))
                      (Num (real_of_int (end' - start')));
              entry = \<lparr>sc_s = v, sc_t = get_match_seq_length pm, sc_nhits = get_nhits pm,
                       sc_span = get_end_match pm - get_start_match pm + 1,
                       sc_gc = gc', sc_serial_no = serial_no st\<rparr>
          in save_score e w pm v st =
               (gc', st\<lparr>the_score_set :=
                          ss\<lparr>scores := (scores ss)[ss_n ss := entry],
                             ss_n := ss_n ss + 1,
                             num_scores_seen := num_scores_seen ss + 1,
                             max_t := max (max_t ss) (get_match_seq_length pm)\<rparr>,
                        serial_no := dadd (serial_no st) (Num 1)\<rparr>))"
proof -
  have c: "c_int (num_scores_seen (the_score_set st) + 1) = num_scores_seen (the_score_set st) + 1"
    using assms(3,4) by (simp add: c_int_id)
  have slot: "reservoir_slot (the_score_set st) (prng st) =
     (True, int (ss_n (the_score_set st)),
      (the_score_set st)\<lparr>num_scores_seen := num_scores_seen (the_score_set st) + 1,
                          ss_n := ss_n (the_score_set st) + 1\<rparr>, prng st)"
    using reservoir_slot_fill [OF assms(2), of "prng st"] by (simp only: c)
  show ?thesis
    using save_score_explicit [OF assms(1) slot, where w = w and pm = pm]
    by (simp add: Let_def array_store_nonneg)
qed

lemma save_score_sample:
  assumes "dgt v (LOG_SMALL e)"
    and "\<not> ss_n (the_score_set st) < max_scores_saved (the_score_set st)"
    and "0 \<le> num_scores_seen (the_score_set st)"
    and "num_scores_seen (the_score_set st) < 2147483647"
    and "0 \<le> mt_out (prng st) (mt_pos (prng st))"
  shows "(let ss = the_score_set st;
              N = num_scores_seen ss + 1;
              score_index = \<lfloor>real_of_int N * mt_out (prng st) (mt_pos (prng st))\<rfloor>;
              start' = max 0 (get_start_match pm - 500);
              end' = min (w_seq_length w - 1) (get_end_match pm + 500);
              gc' = ddiv (dsub (get_seq_gc w end') (get_seq_gc w start'))
                      (Num (real_of_int (end' - start')));
              entry = \<lparr>sc_s = v, sc_t = get_match_seq_length pm, sc_nhits = get_nhits pm,
                       sc_span = get_end_match pm - get_start_match pm + 1,
                       sc_gc = gc', sc_serial_no = serial_no st\<rparr>;
              prng' = (prng st)\<lparr>mt_pos := Suc (mt_pos (prng st))\<rparr>
          in save_score e w pm v st =
               (gc', if score_index < int (max_scores_saved ss)
                     then st\<lparr>the_score_set :=
                               ss\<lparr>scores := (scores ss)[nat score_index := entry],
                                  num_scores_seen := N,
                                  max_t := max (max_t ss) (get_match_seq_length pm)\<rparr>,
                             prng := prng',
                             serial_no := dadd (serial_no st) (Num 1)\<rparr>
                     else st\<lparr>the_score_set := ss\<lparr>num_scores_seen := N\<rparr>, prng := prng'\<rparr>))"
proof -
  define idx where "idx = \<lfloor>real_of_int (num_scores_seen (the_score_set st) + 1)
                            * mt_out (prng st) (mt_pos (prng st))\<rfloor>"
  have c: "c_int (num_scores_seen (the_score_set st) + 1) = num_scores_seen (the_score_set st) + 1"
    using assms(3,4) by (simp add: c_int_id)
  have nn: "0 \<le> real_of_int (num_scores_seen (the_score_set st) + 1) * mt_out (prng st) (mt_pos (prng st))"
    using assms(3,5) by simp
  have f: "0 \<le> idx"
    unfolding idx_def using nn by simp
  have d: "double_to_int (real_of_int (num_scores_seen (the_score_set st) + 1)
                            * mt_out (prng st) (mt_pos (prng st))) = idx"
    unfolding idx_def using nn by (rule double_to_int_nonneg)
  have slot: "reservoir_slot (the_score_set st) (prng st) =
     (idx < int (max_scores_saved (the_score_set st)), idx,
      (the_score_set st)\<lparr>num_scores_seen := num_scores_seen (the_score_set st) + 1\<rparr>,
      (prng st)\<lparr>mt_pos := Suc (mt_pos (prng st))\<rparr>)"
    using reservoir_slot_sample [OF assms(2), of "prng st"] by (simp only: d c)
  have "(let ss = the_score_set st;
              N = num_scores_seen ss + 1;
              score_index = idx;
              start' = max 0 (get_start_match pm - 500);
              end' = min (w_seq_length w - 1) (get_end_match pm + 500);
              gc' = ddiv (dsub (get_seq_gc w end') (get_seq_gc w start'))
                      (Num (real_of_int (end' - start')));
              entry = \<lparr>sc_s = v, sc_t = get_match_seq_length pm, sc_nhits = get_nhits pm,
                       sc_span = get_end_match pm - get_start_match pm + 1,
                       sc_gc = gc', sc_serial_no = serial_no st\<rparr>;
              prng' = (prng st)\<lparr>mt_pos := Suc (mt_pos (prng st))\<rparr>
          in save_score e w pm v st =
               (gc', if score_index < int (max_scores_saved ss)
                     then st\<lparr>the_score_set :=
                               ss\<lparr>scores := (scores ss)[nat score_index := entry],
                                  num_scores_seen := N,
                                  max_t := max (max_t ss) (get_match_seq_length pm)\<rparr>,
                             prng := prng',
                             serial_no := dadd (serial_no st) (Num 1)\<rparr>
                     else st\<lparr>the_score_set := ss\<lparr>num_scores_seen := N\<rparr>, prng := prng'\<rparr>))"
    using save_score_explicit [OF assms(1) slot, where w = w and pm = pm]
    by (simp add: Let_def array_store_nonneg [OF f])
  then show ?thesis unfolding idx_def Let_def .
qed

lemma save_score_reservoir:
  assumes "dgt v (LOG_SMALL e)"
    and "reservoir_slot (the_score_set st) (prng st) = (sample_score, score_index, ss1, g1)"
  shows "prng (snd (save_score e w pm v st)) = g1"
    and "ss_n (the_score_set (snd (save_score e w pm v st))) = ss_n ss1"
    and "num_scores_seen (the_score_set (snd (save_score e w pm v st))) = num_scores_seen ss1"
    and "max_scores_saved (the_score_set (snd (save_score e w pm v st))) = max_scores_saved ss1"
    and "sample_score \<Longrightarrow> 0 \<le> score_index \<Longrightarrow>
           map sc_nhits (scores (the_score_set (snd (save_score e w pm v st))))
             = (map sc_nhits (scores ss1))[nat score_index := get_nhits pm]"
    and "\<not> sample_score \<Longrightarrow> scores (the_score_set (snd (save_score e w pm v st))) = scores ss1"
  using assms by (simp_all add: save_score_def Let_def map_update array_store_nonneg)

lemma occupants_snoc:
  "occupants k occ t (js @ [j]) =
     (if j < k then (occupants k occ t js)[j := t + length js] else occupants k occ t js)"
  by (induction js arbitrary: occ t) auto

lemma length_occupants [simp]: "length (occupants k occ t js) = length occ"
  by (induction js arbitrary: occ t) auto

lemma occupants_bound:
  "\<forall>x\<in>set occ. x < t \<Longrightarrow> \<forall>x\<in>set (occupants k occ t js). x < t + length js"
proof (induction js arbitrary: occ t)
  case Nil
  then show ?case by simp
next
  case (Cons j js)
  let ?occ = "if j < k then occ[j := t] else occ"
  have "\<forall>x\<in>set ?occ. x < Suc t"
  proof
    fix x assume "x \<in> set ?occ"
    then have "x \<in> insert t (set occ)"
      using set_update_subset_insert [of occ j t] by (auto split: if_splits)
    with Cons.prems show "x < Suc t" by auto
  qed
  from Cons.IH [OF this] show ?case by simp
qed

lemma occupants_distinct:
  "distinct occ \<Longrightarrow> \<forall>x\<in>set occ. x < t \<Longrightarrow> distinct (occupants k occ t js)"
proof (induction js arbitrary: occ t)
  case Nil
  then show ?case by simp
next
  case (Cons j js)
  let ?occ = "if j < k then occ[j := t] else occ"
  have t: "t \<notin> set occ" using Cons.prems(2) by auto
  have d: "distinct ?occ"
    using Cons.prems(1) t by (simp add: distinct_list_update)
  have "\<forall>x\<in>set ?occ. x < Suc t"
  proof
    fix x assume "x \<in> set ?occ"
    then have "x \<in> insert t (set occ)"
      using set_update_subset_insert [of occ j t] by (auto split: if_splits)
    with Cons.prems(2) show "x < Suc t" by auto
  qed
  from Cons.IH [OF d this] show ?case by simp
qed

lemma all_draws_length: "js \<in> set (all_draws k d) \<Longrightarrow> length js = d"
  by (induction d arbitrary: js) auto

lemma length_all_draws_Suc:
  "length (all_draws k (Suc d)) = length (all_draws k d) * (k + d + 1)"
  by (simp add: length_concat comp_def sum_list_triv)

lemma count_concat_map:
  "length (filter P (concat (map (\<lambda>js. map (g js) ys) xs)))
     = sum_list (map (\<lambda>js. length (filter (\<lambda>j. P (g js j)) ys)) xs)"
  by (induction xs) (simp_all add: filter_map comp_def)

lemma sum_list_if_const:
  "sum_list (map (\<lambda>x. if Q x then (c::nat) else 0) xs) = c * length (filter Q xs)"
  by (induction xs) auto

lemma count_all_but_one:
  assumes "p < m"
  shows "length (filter (\<lambda>j. j \<noteq> p) [0..<m]) = m - 1"
proof -
  have "length (filter (\<lambda>j. j \<noteq> p) [0..<m]) = card {i. i < m \<and> i \<noteq> p}"
    by (simp add: length_filter_conv_card cong: conj_cong)
  also have "{i. i < m \<and> i \<noteq> p} = {0..<m} - {p}" by auto
  also have "card ({0..<m} - {p}) = m - 1" using assms by simp
  finally show ?thesis .
qed

lemma count_below:
  assumes "k \<le> m"
  shows "length (filter (\<lambda>j. j < k) [0..<m]) = k"
proof -
  have "length (filter (\<lambda>j. j < k) [0..<m]) = card {i. i < m \<and> i < k}"
    by (simp add: length_filter_conv_card cong: conj_cong)
  also have "{i. i < m \<and> i < k} = {0..<k}" using assms by auto
  finally show ?thesis by simp
qed

lemma slots_facts:
  assumes "length js = d"
  shows "length (occupants k [0..<k] k js) = k"
    and "distinct (occupants k [0..<k] k js)"
    and "\<forall>x\<in>set (occupants k [0..<k] k js). x < k + d"
  using assms occupants_distinct [of "[0..<k]" k k js] occupants_bound [of "[0..<k]" k k js]
  by auto

lemma inner_count_old:
  assumes len: "length js = d" and a: "a < k + d"
  shows "length (filter (\<lambda>j. a \<in> set (occupants k [0..<k] k (js @ [j]))) [0..<k + d + 1])
         = (if a \<in> set (occupants k [0..<k] k js) then k + d else 0)"
proof -
  let ?O = "occupants k [0..<k] k js"
  note f = slots_facts [OF len, of k]
  have snoc: "\<And>j. occupants k [0..<k] k (js @ [j]) = (if j < k then ?O[j := k + d] else ?O)"
    by (simp add: occupants_snoc len)
  show ?thesis
  proof (cases "a \<in> set ?O")
    case True
    then obtain p where p: "p < k" "?O ! p = a"
      using f(1) by (auto simp: in_set_conv_nth)
    have iff: "\<And>j. a \<in> set (occupants k [0..<k] k (js @ [j])) \<longleftrightarrow> j \<noteq> p"
    proof -
      fix j
      show "a \<in> set (occupants k [0..<k] k (js @ [j])) \<longleftrightarrow> j \<noteq> p"
      proof (cases "j < k")
        case False
        with True p show ?thesis by (simp add: snoc)
      next
        case jk: True
        show ?thesis
        proof (cases "j = p")
          case True
          have "a \<notin> set (?O[p := k + d])"
          proof
            assume "a \<in> set (?O[p := k + d])"
            then obtain i where i: "i < k" "(?O[p := k + d]) ! i = a"
              using f(1) by (auto simp: in_set_conv_nth)
            show False
            proof (cases "i = p")
              case True
              with i p f(1) have "a = k + d" by simp
              with a show False by simp
            next
              case False
              with i have "?O ! i = a" by simp
              with p i False f(1) f(2) show False
                by (metis nth_eq_iff_index_eq)
            qed
          qed
          with True jk show ?thesis by (simp add: snoc)
        next
          case False
          have "(?O[j := k + d]) ! p = a" using False p by simp
          moreover have "p < length (?O[j := k + d])" using p f(1) by simp
          ultimately have "a \<in> set (?O[j := k + d])" by (metis nth_mem)
          with False jk show ?thesis by (simp add: snoc)
        qed
      qed
    qed
    have "length (filter (\<lambda>j. a \<in> set (occupants k [0..<k] k (js @ [j]))) [0..<k + d + 1])
          = length (filter (\<lambda>j. j \<noteq> p) [0..<k + d + 1])"
      by (simp only: iff)
    also have "\<dots> = k + d" using count_all_but_one [of p "k + d + 1"] p by simp
    finally show ?thesis using True by simp
  next
    case False
    have "\<And>j. a \<notin> set (occupants k [0..<k] k (js @ [j]))"
    proof -
      fix j
      have "set (?O[j := k + d]) \<subseteq> insert (k + d) (set ?O)"
        by (rule set_update_subset_insert)
      with False a show "a \<notin> set (occupants k [0..<k] k (js @ [j]))"
        by (auto simp: snoc)
    qed
    then show ?thesis using False by simp
  qed
qed

lemma inner_count_new:
  assumes len: "length js = d"
  shows "length (filter (\<lambda>j. k + d \<in> set (occupants k [0..<k] k (js @ [j]))) [0..<k + d + 1]) = k"
proof -
  let ?O = "occupants k [0..<k] k js"
  note f = slots_facts [OF len, of k]
  have notin: "k + d \<notin> set ?O" using f(3) by auto
  have iff: "\<And>j. k + d \<in> set (occupants k [0..<k] k (js @ [j])) \<longleftrightarrow> j < k"
  proof -
    fix j
    show "k + d \<in> set (occupants k [0..<k] k (js @ [j])) \<longleftrightarrow> j < k"
    proof (cases "j < k")
      case True
      then have "k + d \<in> set (?O[j := k + d])"
        using f(1) by (simp add: set_update_memI)
      with True show ?thesis by (simp add: occupants_snoc len)
    next
      case False
      with notin show ?thesis by (simp add: occupants_snoc len)
    qed
  qed
  have "length (filter (\<lambda>j. k + d \<in> set (occupants k [0..<k] k (js @ [j]))) [0..<k + d + 1])
        = length (filter (\<lambda>j. j < k) [0..<k + d + 1])"
    by (simp only: iff)
  also have "\<dots> = k" by (rule count_below) simp
  finally show ?thesis .
qed

lemma count_step_old:
  assumes "a < k + d"
  shows "length (filter (\<lambda>js. a \<in> set (occupants k [0..<k] k js)) (all_draws k (Suc d)))
         = (k + d) * length (filter (\<lambda>js. a \<in> set (occupants k [0..<k] k js)) (all_draws k d))"
proof -
  have "length (filter (\<lambda>js. a \<in> set (occupants k [0..<k] k js)) (all_draws k (Suc d)))
        = sum_list (map (\<lambda>js. length (filter (\<lambda>j. a \<in> set (occupants k [0..<k] k (js @ [j])))
                                         [0..<k + d + 1])) (all_draws k d))"
    unfolding all_draws.simps by (rule count_concat_map)
  also have "\<dots> = sum_list (map (\<lambda>js. if a \<in> set (occupants k [0..<k] k js) then k + d else 0)
                               (all_draws k d))"
  proof (rule arg_cong [where f = sum_list], rule map_cong [OF refl])
    fix js assume "js \<in> set (all_draws k d)"
    then have "length js = d" by (rule all_draws_length)
    then show "length (filter (\<lambda>j. a \<in> set (occupants k [0..<k] k (js @ [j]))) [0..<k + d + 1])
               = (if a \<in> set (occupants k [0..<k] k js) then k + d else 0)"
      using assms by (rule inner_count_old)
  qed
  also have "\<dots> = (k + d) * length (filter (\<lambda>js. a \<in> set (occupants k [0..<k] k js)) (all_draws k d))"
    by (rule sum_list_if_const)
  finally show ?thesis .
qed

lemma count_step_new:
  "length (filter (\<lambda>js. k + d \<in> set (occupants k [0..<k] k js)) (all_draws k (Suc d)))
     = k * length (all_draws k d)"
proof -
  have "length (filter (\<lambda>js. k + d \<in> set (occupants k [0..<k] k js)) (all_draws k (Suc d)))
        = sum_list (map (\<lambda>js. length (filter (\<lambda>j. k + d \<in> set (occupants k [0..<k] k (js @ [j])))
                                         [0..<k + d + 1])) (all_draws k d))"
    unfolding all_draws.simps by (rule count_concat_map)
  also have "\<dots> = sum_list (map (\<lambda>js. k) (all_draws k d))"
  proof (rule arg_cong [where f = sum_list], rule map_cong [OF refl])
    fix js assume "js \<in> set (all_draws k d)"
    then have "length js = d" by (rule all_draws_length)
    then show "length (filter (\<lambda>j. k + d \<in> set (occupants k [0..<k] k (js @ [j]))) [0..<k + d + 1]) = k"
      by (rule inner_count_new)
  qed
  also have "\<dots> = k * length (all_draws k d)"
    by (simp add: sum_list_triv)
  finally show ?thesis .
qed

lemma inclusion_count:
  "a < k + d \<Longrightarrow>
   length (filter (\<lambda>js. a \<in> set (occupants k [0..<k] k js)) (all_draws k d)) * (k + d)
     = k * length (all_draws k d)"
proof (induction d)
  case 0
  then show ?case by simp
next
  case (Suc d)
  show ?case
  proof (cases "a < k + d")
    case True
    from Suc.IH [OF True] count_step_old [OF True]
    show ?thesis
      by (simp add: length_all_draws_Suc algebra_simps del: all_draws.simps)
  next
    case False
    with Suc.prems have "a = k + d" by simp
    then show ?thesis
      using count_step_new [of k d]
      by (simp add: length_all_draws_Suc algebra_simps del: all_draws.simps)
  qed
qed


lemma all_draws_bound: "js \<in> set (all_draws k d) \<Longrightarrow> i < d \<Longrightarrow> js ! i < k + i + 1"
proof (induction d arbitrary: js i)
  case 0
  then show ?case by simp
next
  case (Suc d)
  from Suc.prems(1) obtain js0 j where js: "js = js0 @ [j]" "js0 \<in> set (all_draws k d)" "j < k + d + 1"
    by auto
  have len: "length js0 = d" using js(2) by (rule all_draws_length)
  show ?case
  proof (cases "i < d")
    case True
    with Suc.IH [OF js(2) True] js(1) len show ?thesis by (simp add: nth_append)
  next
    case False
    with Suc.prems(2) have "i = d" by simp
    with js len show ?thesis by (simp add: nth_append)
  qed
qed


lemma record_scores_snoc:
  "record_scores e dp w (pms @ [pm]) st =
     snd (save_score e w pm (dsub (get_score pm) dp) (record_scores e dp w pms st))"
  by (simp add: record_scores_def)

lemma floor_index:
  "double_to_int (real_of_int (int (Suc n)) * (real j / real (Suc n))) = int j"
proof -
  have "real_of_int (int (Suc n)) * (real j / real (Suc n)) = real j" by simp
  then show ?thesis by (simp only: double_to_int_def of_nat_0_le_iff if_True floor_of_nat)
qed

lemma fill_phase:
  assumes n0: "ss_n (the_score_set st0) = 0" and s0: "num_scores_seen (the_score_set st0) = 0"
    and len0: "length (scores (the_score_set st0)) = max_scores_saved (the_score_set st0)"
    and big: "\<forall>pm\<in>set pms. dgt (dsub (get_score pm) dp) (LOG_SMALL e)"
    and tag: "\<forall>t<length pms. get_nhits (pms ! t) = int t"
    and kb: "max_scores_saved (the_score_set st0) < 2147483648"
  shows "t \<le> max_scores_saved (the_score_set st0) \<Longrightarrow> t \<le> length pms \<Longrightarrow>
         ss_n (the_score_set (record_scores e dp w (take t pms) st0)) = t
         \<and> num_scores_seen (the_score_set (record_scores e dp w (take t pms) st0)) = int t
         \<and> max_scores_saved (the_score_set (record_scores e dp w (take t pms) st0))
             = max_scores_saved (the_score_set st0)
         \<and> length (scores (the_score_set (record_scores e dp w (take t pms) st0)))
             = max_scores_saved (the_score_set st0)
         \<and> prng (record_scores e dp w (take t pms) st0) = prng st0
         \<and> take t (map sc_nhits (scores (the_score_set (record_scores e dp w (take t pms) st0))))
             = map int [0..<t]"
proof (induction t)
  case 0
  then show ?case using n0 s0 len0 by (simp add: record_scores_def)
next
  case (Suc t)
  let ?k = "max_scores_saved (the_score_set st0)"
  let ?st = "record_scores e dp w (take t pms) st0"
  let ?pm = "pms ! t"
  let ?v = "dsub (get_score ?pm) dp"
  let ?st' = "snd (save_score e w ?pm ?v ?st)"
  from Suc.prems have t: "t < ?k" "t < length pms" by simp_all
  from Suc.IH t have ih: "ss_n (the_score_set ?st) = t" "num_scores_seen (the_score_set ?st) = int t"
    "max_scores_saved (the_score_set ?st) = ?k" "length (scores (the_score_set ?st)) = ?k"
    "prng ?st = prng st0" "take t (map sc_nhits (scores (the_score_set ?st))) = map int [0..<t]"
    by simp_all
  have tk: "take (Suc t) pms = take t pms @ [?pm]"
    using t(2) by (rule take_Suc_conv_app_nth)
  have st': "record_scores e dp w (take (Suc t) pms) st0 = ?st'"
    by (simp only: tk record_scores_snoc)
  have v: "dgt ?v (LOG_SMALL e)" using big t(2) by simp
  have nh: "get_nhits ?pm = int t" using tag t(2) by simp
  have c: "c_int (int t + 1) = int t + 1"
    using t(1) kb by (intro c_int_id) simp_all
  have slot: "reservoir_slot (the_score_set ?st) (prng ?st) =
     (True, int t, (the_score_set ?st)\<lparr>num_scores_seen := int t + 1, ss_n := t + 1\<rparr>, prng st0)"
    using reservoir_slot_fill [of "the_score_set ?st" "prng ?st"] ih t(1) by (simp add: c)
  note r = save_score_reservoir [OF v slot, where w = w and pm = ?pm]
  from r(5) have upd: "map sc_nhits (scores (the_score_set ?st'))
      = (map sc_nhits (scores (the_score_set ?st)))[t := int t]"
    by (simp add: nh)
  have lenm: "t < length (map sc_nhits (scores (the_score_set ?st)))" using ih(4) t(1) by simp
  have "take (Suc t) ((map sc_nhits (scores (the_score_set ?st)))[t := int t])
        = take t (map sc_nhits (scores (the_score_set ?st))) @ [int t]"
    using lenm by (simp add: take_Suc_conv_app_nth)
  with ih(6) have tk': "take (Suc t) (map sc_nhits (scores (the_score_set ?st'))) = map int [0..<Suc t]"
    by (simp add: upd)
  have len': "length (scores (the_score_set ?st')) = ?k"
  proof -
    have "length (map sc_nhits (scores (the_score_set ?st'))) = length (map sc_nhits (scores (the_score_set ?st)))"
      by (simp only: upd length_list_update)
    with ih(4) show ?thesis by simp
  qed
  from r(1,2,3,4) ih(3) tk' len' show ?case
    by (simp add: st')
qed

lemma sample_phase:
  assumes n0: "ss_n (the_score_set st0) = 0" and s0: "num_scores_seen (the_score_set st0) = 0"
    and len0: "length (scores (the_score_set st0)) = k" and k: "max_scores_saved (the_score_set st0) = k"
    and big: "\<forall>pm\<in>set pms. dgt (dsub (get_score pm) dp) (LOG_SMALL e)"
    and tag: "\<forall>t<length pms. get_nhits (pms ! t) = int t"
    and g0: "prng st0 = index_prng k js"
    and bound: "\<forall>i<length js. js ! i < k + i + 1"
    and kd: "k + length js < 2147483648"
  shows "d \<le> length js \<Longrightarrow> k + d \<le> length pms \<Longrightarrow>
         ss_n (the_score_set (record_scores e dp w (take (k + d) pms) st0)) = k
         \<and> num_scores_seen (the_score_set (record_scores e dp w (take (k + d) pms) st0)) = int (k + d)
         \<and> max_scores_saved (the_score_set (record_scores e dp w (take (k + d) pms) st0)) = k
         \<and> prng (record_scores e dp w (take (k + d) pms) st0) = (index_prng k js)\<lparr>mt_pos := d\<rparr>
         \<and> map sc_nhits (scores (the_score_set (record_scores e dp w (take (k + d) pms) st0)))
             = map int (occupants k [0..<k] k (take d js))"
proof (induction d)
  case 0
  have kb: "max_scores_saved (the_score_set st0) < 2147483648" using k kd by simp
  from fill_phase [OF n0 s0 _ big tag kb, of k w] len0 k 0
  have f: "ss_n (the_score_set (record_scores e dp w (take k pms) st0)) = k"
    "num_scores_seen (the_score_set (record_scores e dp w (take k pms) st0)) = int k"
    "max_scores_saved (the_score_set (record_scores e dp w (take k pms) st0)) = k"
    "length (scores (the_score_set (record_scores e dp w (take k pms) st0))) = k"
    "prng (record_scores e dp w (take k pms) st0) = prng st0"
    "take k (map sc_nhits (scores (the_score_set (record_scores e dp w (take k pms) st0)))) = map int [0..<k]"
    by simp_all
  from f(4) f(6) have "map sc_nhits (scores (the_score_set (record_scores e dp w (take k pms) st0))) = map int [0..<k]"
    by simp
  with f g0 show ?case by (simp add: index_prng_def)
next
  case (Suc d)
  let ?st = "record_scores e dp w (take (k + d) pms) st0"
  let ?pm = "pms ! (k + d)"
  let ?v = "dsub (get_score ?pm) dp"
  let ?st' = "snd (save_score e w ?pm ?v ?st)"
  let ?O = "occupants k [0..<k] k (take d js)"
  from Suc.prems have d: "d < length js" "k + d < length pms" by simp_all
  from Suc.IH d have ih: "ss_n (the_score_set ?st) = k" "num_scores_seen (the_score_set ?st) = int (k + d)"
    "max_scores_saved (the_score_set ?st) = k" "prng ?st = (index_prng k js)\<lparr>mt_pos := d\<rparr>"
    "map sc_nhits (scores (the_score_set ?st)) = map int ?O"
    by simp_all
  have tk: "take (Suc (k + d)) pms = take (k + d) pms @ [?pm]"
    using d(2) by (simp add: take_Suc_conv_app_nth)
  have st': "record_scores e dp w (take (Suc (k + d)) pms) st0 = ?st'"
    by (simp only: tk record_scores_snoc)
  have v: "dgt ?v (LOG_SMALL e)" using big d(2) by simp
  have nh: "get_nhits ?pm = int (k + d)" using tag d(2) by simp
  have u: "mt_out (prng ?st) (mt_pos (prng ?st)) = real (js ! d) / real (Suc (k + d))"
    by (simp add: ih(4) index_prng_def)
  have c: "c_int (num_scores_seen (the_score_set ?st) + 1) = int (Suc (k + d))"
  proof -
    have "c_int (int (k + d) + 1) = int (k + d) + 1"
      using d(1) kd by (intro c_int_id) simp_all
    then show ?thesis by (simp add: ih(2))
  qed
  have idx: "double_to_int (real_of_int (c_int (num_scores_seen (the_score_set ?st) + 1))
                * mt_out (prng ?st) (mt_pos (prng ?st))) = int (js ! d)"
    unfolding c u by (rule floor_index)
  have slot: "reservoir_slot (the_score_set ?st) (prng ?st) =
     (js ! d < k, int (js ! d), (the_score_set ?st)\<lparr>num_scores_seen := int (Suc (k + d))\<rparr>,
      (index_prng k js)\<lparr>mt_pos := Suc d\<rparr>)"
  proof -
    have ns: "\<not> ss_n (the_score_set ?st) < max_scores_saved (the_score_set ?st)"
      using ih by simp
    note rs = reservoir_slot_sample [OF ns, of "prng ?st", unfolded idx, unfolded c]
    show ?thesis using rs by (simp add: ih)
  qed
  note r = save_score_reservoir [OF v slot, where w = w and pm = ?pm]
  have snoc: "occupants k [0..<k] k (take (Suc d) js) = (if js ! d < k then ?O[js ! d := k + d] else ?O)"
    using d(1) by (simp add: take_Suc_conv_app_nth occupants_snoc)
  have sc: "map sc_nhits (scores (the_score_set ?st')) = map int (occupants k [0..<k] k (take (Suc d) js))"
  proof (cases "js ! d < k")
    case True
    with r(5) have "map sc_nhits (scores (the_score_set ?st')) = (map int ?O)[js ! d := int (k + d)]"
      by (simp add: nh ih(5))
    with True show ?thesis by (simp add: snoc map_update)
  next
    case False
    with r(6) have "scores (the_score_set ?st') = scores (the_score_set ?st)" by simp
    with False show ?thesis by (simp add: snoc ih(5))
  qed
  from r(1,2,3,4) ih(1,3) sc show ?case
    by (simp add: st')
qed

lemma reservoir_slot_counters:
  "reservoir_slot ss g = (s, i, ss', g') \<Longrightarrow>
   num_scores_seen ss' = c_int (num_scores_seen ss + 1)
   \<and> ss_n ss' = (if ss_n ss < max_scores_saved ss then ss_n ss + 1 else ss_n ss)
   \<and> max_scores_saved ss' = max_scores_saved ss"
  by (auto simp: reservoir_slot_def mts_drand_def Let_def split: if_splits)

lemma record_scores_counters:
  assumes big: "\<forall>pm\<in>set pms. dgt (dsub (get_score pm) dp) (LOG_SMALL e)"
    and le: "ss_n (the_score_set st) \<le> max_scores_saved (the_score_set st)"
    and nn: "0 \<le> num_scores_seen (the_score_set st)"
    and bnd: "num_scores_seen (the_score_set st) + int (length pms) < 2147483648"
  shows "num_scores_seen (the_score_set (record_scores e dp w pms st))
           = num_scores_seen (the_score_set st) + int (length pms)
         \<and> ss_n (the_score_set (record_scores e dp w pms st))
           = min (ss_n (the_score_set st) + length pms) (max_scores_saved (the_score_set st))
         \<and> max_scores_saved (the_score_set (record_scores e dp w pms st))
           = max_scores_saved (the_score_set st)"
  using big bnd
proof (induction pms rule: rev_induct)
  case Nil
  then show ?case using le by (simp add: record_scores_def)
next
  case (snoc pm pms)
  let ?st = "record_scores e dp w pms st"
  from snoc have ih: "num_scores_seen (the_score_set ?st) = num_scores_seen (the_score_set st) + int (length pms)"
    "ss_n (the_score_set ?st) = min (ss_n (the_score_set st) + length pms) (max_scores_saved (the_score_set st))"
    "max_scores_saved (the_score_set ?st) = max_scores_saved (the_score_set st)"
    by simp_all
  have v: "dgt (dsub (get_score pm) dp) (LOG_SMALL e)" using snoc.prems by simp
  obtain s i ss' g' where slot: "reservoir_slot (the_score_set ?st) (prng ?st) = (s, i, ss', g')"
    by (cases "reservoir_slot (the_score_set ?st) (prng ?st)") auto
  note r = save_score_reservoir [OF v slot, where w = w and pm = pm]
  note c = reservoir_slot_counters [OF slot]
  have ci: "c_int (num_scores_seen (the_score_set ?st) + 1) = num_scores_seen (the_score_set ?st) + 1"
    using nn snoc.prems(2) by (intro c_int_id) (simp_all add: ih(1))
  from r(2,3,4) c ih ci show ?case
    by (auto simp: record_scores_snoc)
qed

lemma reservoir_inclusion_count:
  assumes n0: "ss_n (the_score_set st0) = 0" and s0: "num_scores_seen (the_score_set st0) = 0"
    and len0: "length (scores (the_score_set st0)) = k" and k: "max_scores_saved (the_score_set st0) = k"
    and big: "\<forall>pm\<in>set pms. dgt (dsub (get_score pm) dp) (LOG_SMALL e)"
    and tag: "\<forall>t<length pms. get_nhits (pms ! t) = int t"
    and len: "length pms = k + d"
    and kd: "k + d < 2147483648"
    and a: "a < k + d"
  shows "length (filter (\<lambda>js. int a \<in> sc_nhits ` set (scores (the_score_set
                   (record_scores e dp w pms (st0\<lparr>prng := index_prng k js\<rparr>)))))
           (all_draws k d)) * (k + d)
         = k * length (all_draws k d)"
proof -
  have eq: "\<And>js. js \<in> set (all_draws k d) \<Longrightarrow>
      (int a \<in> sc_nhits ` set (scores (the_score_set
                   (record_scores e dp w pms (st0\<lparr>prng := index_prng k js\<rparr>)))))
      = (a \<in> set (occupants k [0..<k] k js))"
  proof -
    fix js assume js: "js \<in> set (all_draws k d)"
    then have ljs: "length js = d" by (rule all_draws_length)
    have bound: "\<forall>i<length js. js ! i < k + i + 1"
      using all_draws_bound [OF js] ljs by simp
    have kd': "k + length js < 2147483648" using kd ljs by simp
    let ?st0 = "st0\<lparr>prng := index_prng k js\<rparr>"
    from sample_phase [of ?st0 k pms dp e js d w] n0 s0 len0 k big tag bound ljs len kd'
    have "map sc_nhits (scores (the_score_set (record_scores e dp w (take (k + d) pms) ?st0)))
             = map int (occupants k [0..<k] k (take d js))"
      by simp
    with ljs len have m: "map sc_nhits (scores (the_score_set (record_scores e dp w pms ?st0)))
             = map int (occupants k [0..<k] k js)"
      by simp
    have "sc_nhits ` set (scores (the_score_set (record_scores e dp w pms ?st0)))
          = set (map sc_nhits (scores (the_score_set (record_scores e dp w pms ?st0))))"
      by simp
    also have "\<dots> = int ` set (occupants k [0..<k] k js)"
      by (simp only: m set_map)
    finally show "(int a \<in> sc_nhits ` set (scores (the_score_set (record_scores e dp w pms ?st0))))
      = (a \<in> set (occupants k [0..<k] k js))"
      by auto
  qed
  have "filter (\<lambda>js. int a \<in> sc_nhits ` set (scores (the_score_set
                   (record_scores e dp w pms (st0\<lparr>prng := index_prng k js\<rparr>)))))
           (all_draws k d)
        = filter (\<lambda>js. a \<in> set (occupants k [0..<k] k js)) (all_draws k d)"
    by (rule filter_cong [OF refl]) (rule eq)
  then show ?thesis using inclusion_count [OF a] by simp
qed

lemma process_match_reservoir:
  assumes nodefer: "\<not> (\<not> is_complete_seq w \<and> get_start_match pm > w_seq_length w - OVERLAP_SIZE e)"
    and noskip: "get_start_match pm \<noteq> start_pos st"
    and res: "process_match e dp w pm st = Some (c, st')"
  shows "the_score_set st'
          = the_score_set (snd (save_score e w pm (dsub (get_score pm) dp)
                                  (st\<lparr>start_pos := get_end_match pm + 1\<rparr>)))
        \<and> prng st'
          = prng (snd (save_score e w pm (dsub (get_score pm) dp)
                         (st\<lparr>start_pos := get_end_match pm + 1\<rparr>)))
        \<and> serial_no st'
          = serial_no (snd (save_score e w pm (dsub (get_score pm) dp)
                              (st\<lparr>start_pos := get_end_match pm + 1\<rparr>)))"
proof -
  let ?st0 = "st\<lparr>start_pos := get_end_match pm + 1\<rparr>"
  let ?v = "dsub (get_score pm) dp"
  obtain g st1 where s1: "save_score e w pm ?v ?st0 = (g, st1)"
    by (cases "save_score e w pm ?v ?st0") auto
  obtain st2 where s2: "init_distr_step e dp st1 = Some st2"
    using init_distr_step_total by blast
  obtain pv gb where s3: "match_pvalue e ?v g st2 = (pv, gb)"
    by (cases "match_pvalue e ?v g st2") auto
  from res nodefer noskip s1 s2 s3
  have s4: "save_match (build_mcast_match e dp w pm ?v pv g gb) st2 = Some st'"
    by (auto simp: process_match_def Let_def)
  from init_distr_step_score_set [OF s2] save_match_score_set [OF s4] s1
  show ?thesis by simp
qed

lemma save_score_cong:
  assumes "the_score_set a = the_score_set b" "prng a = prng b" "serial_no a = serial_no b"
  shows "the_score_set (snd (save_score e w pm v a)) = the_score_set (snd (save_score e w pm v b))
         \<and> prng (snd (save_score e w pm v a)) = prng (snd (save_score e w pm v b))
         \<and> serial_no (snd (save_score e w pm v a)) = serial_no (snd (save_score e w pm v b))"
  using assms by (simp add: save_score_def Let_def split: prod.splits)

lemma save_score_start_pos:
  "start_pos (snd (save_score e w pm v st)) = start_pos st"
  by (simp add: save_score_def Let_def split: prod.splits)

lemma process_match_continue:
  assumes nodefer: "\<not> (\<not> is_complete_seq w \<and> get_start_match pm > w_seq_length w - OVERLAP_SIZE e)"
    and noskip: "get_start_match pm \<noteq> start_pos st"
  shows "\<exists>st'. process_match e dp w pm st = Some (Continue, st')
           \<and> start_pos st' = get_end_match pm + 1"
proof -
  let ?st0 = "st\<lparr>start_pos := get_end_match pm + 1\<rparr>"
  let ?v = "dsub (get_score pm) dp"
  obtain g st1 where s1: "save_score e w pm ?v ?st0 = (g, st1)"
    by (cases "save_score e w pm ?v ?st0") auto
  obtain st2 where s2: "init_distr_step e dp st1 = Some st2"
    using init_distr_step_total by blast
  obtain pv gb where s3: "match_pvalue e ?v g st2 = (pv, gb)"
    by (cases "match_pvalue e ?v g st2") auto
  obtain st3 where s4: "save_match (build_mcast_match e dp w pm ?v pv g gb) st2 = Some st3"
    using save_match_total by blast
  have r: "process_match e dp w pm st = Some (Continue, st3)"
    using nodefer noskip by (simp add: process_match_def Let_def s1 s2 s3 s4)
  have "start_pos st1 = get_end_match pm + 1"
    using save_score_start_pos [of e w pm ?v ?st0] s1 by simp
  with init_distr_step_score_set [OF s2] save_match_score_set [OF s4]
  have "start_pos st3 = get_end_match pm + 1" by simp
  with r show ?thesis by blast
qed

lemma match_loop_record_scores:
  assumes fin: "is_complete_seq w"
  shows "none_skipped (start_pos st) pms \<Longrightarrow>
         the_score_set a = the_score_set st \<Longrightarrow> prng a = prng st \<Longrightarrow> serial_no a = serial_no st \<Longrightarrow>
         \<exists>st'. match_loop e dp w pms st = Some st'
           \<and> the_score_set st' = the_score_set (record_scores e dp w pms a)
           \<and> prng st' = prng (record_scores e dp w pms a)
           \<and> serial_no st' = serial_no (record_scores e dp w pms a)"
proof (induction pms arbitrary: st a)
  case Nil
  then show ?case by (simp add: record_scores_def)
next
  case (Cons pm pms)
  let ?v = "dsub (get_score pm) dp"
  let ?st0 = "st\<lparr>start_pos := get_end_match pm + 1\<rparr>"
  let ?a1 = "snd (save_score e w pm ?v a)"
  from Cons.prems(1) have ns: "get_start_match pm \<noteq> start_pos st"
    and rest: "none_skipped (get_end_match pm + 1) pms" by simp_all
  have nodefer: "\<not> (\<not> is_complete_seq w \<and> get_start_match pm > w_seq_length w - OVERLAP_SIZE e)"
    using fin by simp
  from process_match_continue [OF nodefer ns, of dp]
  obtain st1 where p: "process_match e dp w pm st = Some (Continue, st1)"
    and sp: "start_pos st1 = get_end_match pm + 1" by blast
  note k = process_match_reservoir [OF nodefer ns p]
  have "the_score_set a = the_score_set ?st0" "prng a = prng ?st0" "serial_no a = serial_no ?st0"
    using Cons.prems(2,3,4) by simp_all
  from save_score_cong [OF this, of e w pm ?v] k
  have eq: "the_score_set ?a1 = the_score_set st1" "prng ?a1 = prng st1" "serial_no ?a1 = serial_no st1"
    by simp_all
  from rest sp have rest': "none_skipped (start_pos st1) pms" by simp
  from Cons.IH [OF rest' eq]
  obtain st' where m: "match_loop e dp w pms st1 = Some st'"
    and r: "the_score_set st' = the_score_set (record_scores e dp w pms ?a1)"
      "prng st' = prng (record_scores e dp w pms ?a1)"
      "serial_no st' = serial_no (record_scores e dp w pms ?a1)"
    by blast
  have rs: "record_scores e dp w (pm # pms) a = record_scores e dp w pms ?a1"
    by (simp add: record_scores_def)
  from p m have "match_loop e dp w (pm # pms) st = Some st'" by simp
  with r rs show ?case by simp
qed


text \<open>
  C3. For a recorded score (one above \<^verbatim>\<open>LOG_SMALL\<close>) and a counter
  \<^verbatim>\<open>num_scores_seen\<close> below \<open>2^31 - 1\<close> (it is a C \<^verbatim>\<open>int\<close>): (1) while
  \<open>n < max_scores_saved\<close> the update increments \<^verbatim>\<open>num_scores_seen\<close>, writes the
  sample (score, length, hit count, span, GC content and serial number) at slot \<open>n\<close>,
  increments \<open>n\<close>, raises \<^verbatim>\<open>max_t\<close> to the length and increments the serial number,
  without a random draw; (2) otherwise it increments \<^verbatim>\<open>num_scores_seen\<close> and draws
  one number \<open>u\<close> in \<open>[0, 1)\<close>; the index \<open>\<lfloor>num_scores_seen * u\<rfloor>\<close> lies in
  \<open>[0, num_scores_seen)\<close> and is \<open>j\<close> exactly for \<open>u\<close> in
  \<open>[j / num_scores_seen, (j + 1) / num_scores_seen)\<close>, intervals of equal length; the
  sample is written at slot \<open>index\<close>, with \<^verbatim>\<open>max_t\<close> raised and the serial number
  incremented, iff \<open>index < max_scores_saved\<close>, and nothing else changes; (3) after
  a stream of recorded scores that keeps the counter below \<open>2^31\<close>, the counter has
  grown by the length of the stream and the reservoir holds \<open>min\<close> of the number
  recorded and the capacity; (4) the sample is uniform: for a stream of \<open>k + d\<close>
  recorded scores (fewer than \<open>2^31\<close>) into an empty reservoir of \<open>k\<close> slots, the
  scores told apart by their hit counts, among all the equally likely sequences of
  \<open>d\<close> drawn indices the fraction that leaves a given score in the reservoir is
  \<open>k / (k + d)\<close>, the same for every score of the stream; (5) in the loop over
  the matches of a window, a match that is neither deferred nor skipped leaves the
  score set, the generator and the serial number as this update leaves them: no
  other step of the loop body writes them; (6) so the loop over the matches of a
  final window of which none is skipped returns and leaves the score set, the
  generator and the serial number as the stream of these updates does.
\<close>

theorem reservoir_update_uniform:
  "(dgt v (LOG_SMALL e) \<and> ss_n (the_score_set st) < max_scores_saved (the_score_set st)
      \<and> 0 \<le> num_scores_seen (the_score_set st) \<and> num_scores_seen (the_score_set st) < 2147483647 \<longrightarrow>
      (let ss = the_score_set st;
            start' = max 0 (get_start_match pm - 500);
            end' = min (w_seq_length w - 1) (get_end_match pm + 500);
            gc' = ddiv (dsub (get_seq_gc w end') (get_seq_gc w start'))
                    (Num (real_of_int (end' - start')));
            entry = \<lparr>sc_s = v, sc_t = get_match_seq_length pm, sc_nhits = get_nhits pm,
                     sc_span = get_end_match pm - get_start_match pm + 1,
                     sc_gc = gc', sc_serial_no = serial_no st\<rparr>
        in save_score e w pm v st =
             (gc', st\<lparr>the_score_set :=
                        ss\<lparr>scores := (scores ss)[ss_n ss := entry],
                           ss_n := ss_n ss + 1,
                           num_scores_seen := num_scores_seen ss + 1,
                           max_t := max (max_t ss) (get_match_seq_length pm)\<rparr>,
                      serial_no := dadd (serial_no st) (Num 1)\<rparr>)))
   \<and> (dgt v (LOG_SMALL e) \<and> \<not> ss_n (the_score_set st) < max_scores_saved (the_score_set st)
      \<and> 0 \<le> num_scores_seen (the_score_set st) \<and> num_scores_seen (the_score_set st) < 2147483647
      \<and> 0 \<le> mt_out (prng st) (mt_pos (prng st)) \<and> mt_out (prng st) (mt_pos (prng st)) < 1 \<longrightarrow>
      0 \<le> \<lfloor>real_of_int (num_scores_seen (the_score_set st) + 1) * mt_out (prng st) (mt_pos (prng st))\<rfloor>
      \<and> \<lfloor>real_of_int (num_scores_seen (the_score_set st) + 1) * mt_out (prng st) (mt_pos (prng st))\<rfloor>
           < num_scores_seen (the_score_set st) + 1
      \<and> (\<forall>j. (\<lfloor>real_of_int (num_scores_seen (the_score_set st) + 1)
                   * mt_out (prng st) (mt_pos (prng st))\<rfloor> = j)
             = (real_of_int j / real_of_int (num_scores_seen (the_score_set st) + 1)
                  \<le> mt_out (prng st) (mt_pos (prng st))
                \<and> mt_out (prng st) (mt_pos (prng st))
                  < (real_of_int j + 1) / real_of_int (num_scores_seen (the_score_set st) + 1)))
      \<and> (let ss = the_score_set st;
            N = num_scores_seen ss + 1;
            score_index = \<lfloor>real_of_int N * mt_out (prng st) (mt_pos (prng st))\<rfloor>;
            start' = max 0 (get_start_match pm - 500);
            end' = min (w_seq_length w - 1) (get_end_match pm + 500);
            gc' = ddiv (dsub (get_seq_gc w end') (get_seq_gc w start'))
                    (Num (real_of_int (end' - start')));
            entry = \<lparr>sc_s = v, sc_t = get_match_seq_length pm, sc_nhits = get_nhits pm,
                     sc_span = get_end_match pm - get_start_match pm + 1,
                     sc_gc = gc', sc_serial_no = serial_no st\<rparr>;
            prng' = (prng st)\<lparr>mt_pos := Suc (mt_pos (prng st))\<rparr>
        in save_score e w pm v st =
             (gc', if score_index < int (max_scores_saved ss)
                   then st\<lparr>the_score_set :=
                             ss\<lparr>scores := (scores ss)[nat score_index := entry],
                                num_scores_seen := N,
                                max_t := max (max_t ss) (get_match_seq_length pm)\<rparr>,
                           prng := prng',
                           serial_no := dadd (serial_no st) (Num 1)\<rparr>
                   else st\<lparr>the_score_set := ss\<lparr>num_scores_seen := N\<rparr>, prng := prng'\<rparr>)))
   \<and> ((\<forall>pm\<in>set pms. dgt (dsub (get_score pm) dp) (LOG_SMALL e))
       \<and> ss_n (the_score_set st) \<le> max_scores_saved (the_score_set st)
       \<and> 0 \<le> num_scores_seen (the_score_set st)
       \<and> num_scores_seen (the_score_set st) + int (length pms) < 2147483648 \<longrightarrow>
        num_scores_seen (the_score_set (record_scores e dp w pms st))
          = num_scores_seen (the_score_set st) + int (length pms)
        \<and> ss_n (the_score_set (record_scores e dp w pms st))
          = min (ss_n (the_score_set st) + length pms) (max_scores_saved (the_score_set st)))
   \<and> (ss_n (the_score_set st) = 0 \<and> num_scores_seen (the_score_set st) = 0
       \<and> length (scores (the_score_set st)) = k \<and> max_scores_saved (the_score_set st) = k
       \<and> (\<forall>pm\<in>set pms. dgt (dsub (get_score pm) dp) (LOG_SMALL e))
       \<and> (\<forall>i<length pms. get_nhits (pms ! i) = int i)
       \<and> length pms = k + d \<and> k + d < 2147483648 \<and> a < k + d \<longrightarrow>
        length (filter (\<lambda>js. int a \<in> sc_nhits ` set (scores (the_score_set
                   (record_scores e dp w pms (st\<lparr>prng := index_prng k js\<rparr>)))))
           (all_draws k d)) * (k + d)
         = k * length (all_draws k d))
   \<and> (\<not> (\<not> is_complete_seq w \<and> get_start_match pm > w_seq_length w - OVERLAP_SIZE e)
       \<and> get_start_match pm \<noteq> start_pos st
       \<and> process_match e dp w pm st = Some (c, st') \<longrightarrow>
        the_score_set st'
          = the_score_set (snd (save_score e w pm (dsub (get_score pm) dp)
                                  (st\<lparr>start_pos := get_end_match pm + 1\<rparr>)))
        \<and> prng st'
          = prng (snd (save_score e w pm (dsub (get_score pm) dp)
                         (st\<lparr>start_pos := get_end_match pm + 1\<rparr>)))
        \<and> serial_no st'
          = serial_no (snd (save_score e w pm (dsub (get_score pm) dp)
                              (st\<lparr>start_pos := get_end_match pm + 1\<rparr>))))
   \<and> (is_complete_seq w \<and> none_skipped (start_pos st) pms \<longrightarrow>
        (\<exists>st'. match_loop e dp w pms st = Some st'
           \<and> the_score_set st' = the_score_set (record_scores e dp w pms st)
           \<and> prng st' = prng (record_scores e dp w pms st)
           \<and> serial_no st' = serial_no (record_scores e dp w pms st)))"
proof -
  have p1: "dgt v (LOG_SMALL e) \<and> ss_n (the_score_set st) < max_scores_saved (the_score_set st)
      \<and> 0 \<le> num_scores_seen (the_score_set st) \<and> num_scores_seen (the_score_set st) < 2147483647 \<longrightarrow>
      (let ss = the_score_set st;
            start' = max 0 (get_start_match pm - 500);
            end' = min (w_seq_length w - 1) (get_end_match pm + 500);
            gc' = ddiv (dsub (get_seq_gc w end') (get_seq_gc w start'))
                    (Num (real_of_int (end' - start')));
            entry = \<lparr>sc_s = v, sc_t = get_match_seq_length pm, sc_nhits = get_nhits pm,
                     sc_span = get_end_match pm - get_start_match pm + 1,
                     sc_gc = gc', sc_serial_no = serial_no st\<rparr>
        in save_score e w pm v st =
             (gc', st\<lparr>the_score_set :=
                        ss\<lparr>scores := (scores ss)[ss_n ss := entry],
                           ss_n := ss_n ss + 1,
                           num_scores_seen := num_scores_seen ss + 1,
                           max_t := max (max_t ss) (get_match_seq_length pm)\<rparr>,
                      serial_no := dadd (serial_no st) (Num 1)\<rparr>))"
    using save_score_fill [of v e st pm w] by blast
  have p2: "dgt v (LOG_SMALL e) \<and> \<not> ss_n (the_score_set st) < max_scores_saved (the_score_set st)
      \<and> 0 \<le> num_scores_seen (the_score_set st) \<and> num_scores_seen (the_score_set st) < 2147483647
      \<and> 0 \<le> mt_out (prng st) (mt_pos (prng st)) \<and> mt_out (prng st) (mt_pos (prng st)) < 1 \<longrightarrow>
      0 \<le> \<lfloor>real_of_int (num_scores_seen (the_score_set st) + 1) * mt_out (prng st) (mt_pos (prng st))\<rfloor>
      \<and> \<lfloor>real_of_int (num_scores_seen (the_score_set st) + 1) * mt_out (prng st) (mt_pos (prng st))\<rfloor>
           < num_scores_seen (the_score_set st) + 1
      \<and> (\<forall>j. (\<lfloor>real_of_int (num_scores_seen (the_score_set st) + 1)
                   * mt_out (prng st) (mt_pos (prng st))\<rfloor> = j)
             = (real_of_int j / real_of_int (num_scores_seen (the_score_set st) + 1)
                  \<le> mt_out (prng st) (mt_pos (prng st))
                \<and> mt_out (prng st) (mt_pos (prng st))
                  < (real_of_int j + 1) / real_of_int (num_scores_seen (the_score_set st) + 1)))
      \<and> (let ss = the_score_set st;
            N = num_scores_seen ss + 1;
            score_index = \<lfloor>real_of_int N * mt_out (prng st) (mt_pos (prng st))\<rfloor>;
            start' = max 0 (get_start_match pm - 500);
            end' = min (w_seq_length w - 1) (get_end_match pm + 500);
            gc' = ddiv (dsub (get_seq_gc w end') (get_seq_gc w start'))
                    (Num (real_of_int (end' - start')));
            entry = \<lparr>sc_s = v, sc_t = get_match_seq_length pm, sc_nhits = get_nhits pm,
                     sc_span = get_end_match pm - get_start_match pm + 1,
                     sc_gc = gc', sc_serial_no = serial_no st\<rparr>;
            prng' = (prng st)\<lparr>mt_pos := Suc (mt_pos (prng st))\<rparr>
        in save_score e w pm v st =
             (gc', if score_index < int (max_scores_saved ss)
                   then st\<lparr>the_score_set :=
                             ss\<lparr>scores := (scores ss)[nat score_index := entry],
                                num_scores_seen := N,
                                max_t := max (max_t ss) (get_match_seq_length pm)\<rparr>,
                           prng := prng',
                           serial_no := dadd (serial_no st) (Num 1)\<rparr>
                   else st\<lparr>the_score_set := ss\<lparr>num_scores_seen := N\<rparr>, prng := prng'\<rparr>))"
  proof
    assume h: "dgt v (LOG_SMALL e) \<and> \<not> ss_n (the_score_set st) < max_scores_saved (the_score_set st)
      \<and> 0 \<le> num_scores_seen (the_score_set st) \<and> num_scores_seen (the_score_set st) < 2147483647
      \<and> 0 \<le> mt_out (prng st) (mt_pos (prng st)) \<and> mt_out (prng st) (mt_pos (prng st)) < 1"
    then have pos: "0 < num_scores_seen (the_score_set st) + 1" by simp
    from h have u: "0 \<le> mt_out (prng st) (mt_pos (prng st))" "mt_out (prng st) (mt_pos (prng st)) < 1"
      by simp_all
    note a = drawn_index_range [OF u pos]
    note b = drawn_index_interval [OF pos, of "mt_out (prng st) (mt_pos (prng st))"]
    from h have c: "(let ss = the_score_set st;
            N = num_scores_seen ss + 1;
            score_index = \<lfloor>real_of_int N * mt_out (prng st) (mt_pos (prng st))\<rfloor>;
            start' = max 0 (get_start_match pm - 500);
            end' = min (w_seq_length w - 1) (get_end_match pm + 500);
            gc' = ddiv (dsub (get_seq_gc w end') (get_seq_gc w start'))
                    (Num (real_of_int (end' - start')));
            entry = \<lparr>sc_s = v, sc_t = get_match_seq_length pm, sc_nhits = get_nhits pm,
                     sc_span = get_end_match pm - get_start_match pm + 1,
                     sc_gc = gc', sc_serial_no = serial_no st\<rparr>;
            prng' = (prng st)\<lparr>mt_pos := Suc (mt_pos (prng st))\<rparr>
        in save_score e w pm v st =
             (gc', if score_index < int (max_scores_saved ss)
                   then st\<lparr>the_score_set :=
                             ss\<lparr>scores := (scores ss)[nat score_index := entry],
                                num_scores_seen := N,
                                max_t := max (max_t ss) (get_match_seq_length pm)\<rparr>,
                           prng := prng',
                           serial_no := dadd (serial_no st) (Num 1)\<rparr>
                   else st\<lparr>the_score_set := ss\<lparr>num_scores_seen := N\<rparr>, prng := prng'\<rparr>))"
      using save_score_sample [of v e st pm w] by blast
    from a b c show "0 \<le> \<lfloor>real_of_int (num_scores_seen (the_score_set st) + 1) * mt_out (prng st) (mt_pos (prng st))\<rfloor>
      \<and> \<lfloor>real_of_int (num_scores_seen (the_score_set st) + 1) * mt_out (prng st) (mt_pos (prng st))\<rfloor>
           < num_scores_seen (the_score_set st) + 1
      \<and> (\<forall>j. (\<lfloor>real_of_int (num_scores_seen (the_score_set st) + 1)
                   * mt_out (prng st) (mt_pos (prng st))\<rfloor> = j)
             = (real_of_int j / real_of_int (num_scores_seen (the_score_set st) + 1)
                  \<le> mt_out (prng st) (mt_pos (prng st))
                \<and> mt_out (prng st) (mt_pos (prng st))
                  < (real_of_int j + 1) / real_of_int (num_scores_seen (the_score_set st) + 1)))
      \<and> (let ss = the_score_set st;
            N = num_scores_seen ss + 1;
            score_index = \<lfloor>real_of_int N * mt_out (prng st) (mt_pos (prng st))\<rfloor>;
            start' = max 0 (get_start_match pm - 500);
            end' = min (w_seq_length w - 1) (get_end_match pm + 500);
            gc' = ddiv (dsub (get_seq_gc w end') (get_seq_gc w start'))
                    (Num (real_of_int (end' - start')));
            entry = \<lparr>sc_s = v, sc_t = get_match_seq_length pm, sc_nhits = get_nhits pm,
                     sc_span = get_end_match pm - get_start_match pm + 1,
                     sc_gc = gc', sc_serial_no = serial_no st\<rparr>;
            prng' = (prng st)\<lparr>mt_pos := Suc (mt_pos (prng st))\<rparr>
        in save_score e w pm v st =
             (gc', if score_index < int (max_scores_saved ss)
                   then st\<lparr>the_score_set :=
                             ss\<lparr>scores := (scores ss)[nat score_index := entry],
                                num_scores_seen := N,
                                max_t := max (max_t ss) (get_match_seq_length pm)\<rparr>,
                           prng := prng',
                           serial_no := dadd (serial_no st) (Num 1)\<rparr>
                   else st\<lparr>the_score_set := ss\<lparr>num_scores_seen := N\<rparr>, prng := prng'\<rparr>))"
      by blast
  qed
  have p3: "(\<forall>pm\<in>set pms. dgt (dsub (get_score pm) dp) (LOG_SMALL e))
       \<and> ss_n (the_score_set st) \<le> max_scores_saved (the_score_set st)
       \<and> 0 \<le> num_scores_seen (the_score_set st)
       \<and> num_scores_seen (the_score_set st) + int (length pms) < 2147483648 \<longrightarrow>
        num_scores_seen (the_score_set (record_scores e dp w pms st))
          = num_scores_seen (the_score_set st) + int (length pms)
        \<and> ss_n (the_score_set (record_scores e dp w pms st))
          = min (ss_n (the_score_set st) + length pms) (max_scores_saved (the_score_set st))"
    using record_scores_counters [of pms dp e st w] by blast
  have p4: "ss_n (the_score_set st) = 0 \<and> num_scores_seen (the_score_set st) = 0
       \<and> length (scores (the_score_set st)) = k \<and> max_scores_saved (the_score_set st) = k
       \<and> (\<forall>pm\<in>set pms. dgt (dsub (get_score pm) dp) (LOG_SMALL e))
       \<and> (\<forall>i<length pms. get_nhits (pms ! i) = int i)
       \<and> length pms = k + d \<and> k + d < 2147483648 \<and> a < k + d \<longrightarrow>
        length (filter (\<lambda>js. int a \<in> sc_nhits ` set (scores (the_score_set
                   (record_scores e dp w pms (st\<lparr>prng := index_prng k js\<rparr>)))))
           (all_draws k d)) * (k + d)
         = k * length (all_draws k d)"
    using reservoir_inclusion_count [of st k pms dp e d a w] by blast
  have p5: "\<not> (\<not> is_complete_seq w \<and> get_start_match pm > w_seq_length w - OVERLAP_SIZE e)
       \<and> get_start_match pm \<noteq> start_pos st
       \<and> process_match e dp w pm st = Some (c, st') \<longrightarrow>
        the_score_set st'
          = the_score_set (snd (save_score e w pm (dsub (get_score pm) dp)
                                  (st\<lparr>start_pos := get_end_match pm + 1\<rparr>)))
        \<and> prng st'
          = prng (snd (save_score e w pm (dsub (get_score pm) dp)
                         (st\<lparr>start_pos := get_end_match pm + 1\<rparr>)))
        \<and> serial_no st'
          = serial_no (snd (save_score e w pm (dsub (get_score pm) dp)
                              (st\<lparr>start_pos := get_end_match pm + 1\<rparr>)))"
    using process_match_reservoir [where w = w and pm = pm and e = e and st = st and dp = dp
            and c = c and st' = st'] by blast
  have p6: "is_complete_seq w \<and> none_skipped (start_pos st) pms \<longrightarrow>
        (\<exists>st'. match_loop e dp w pms st = Some st'
           \<and> the_score_set st' = the_score_set (record_scores e dp w pms st)
           \<and> prng st' = prng (record_scores e dp w pms st)
           \<and> serial_no st' = serial_no (record_scores e dp w pms st))"
    using match_loop_record_scores [where w = w and st = st and pms = pms and a = st and e = e
            and dp = dp] by blast
  show ?thesis by (intro conjI p1 p2 p3 p4 p5 p6)
qed

theorem reservoir_update_uniform_witness:
  "(dgt (Num 10) (LOG_SMALL example_env)
    \<and> ss_n (the_score_set (example_state 1)) < max_scores_saved (the_score_set (example_state 1))
    \<and> 0 \<le> num_scores_seen (the_score_set (example_state 1))
    \<and> num_scores_seen (the_score_set (example_state 1)) < 2147483647
    \<and> save_score example_env (example_window True) (example_raw_match 5 20 (Num 12)) (Num 10)
         (example_state 1)
       = (Num (1/2),
          (example_state 1)
            \<lparr>the_score_set :=
               (example_score_set 1)
                 \<lparr>scores := [\<lparr>sc_s = Num 10, sc_t = 16, sc_nhits = 2, sc_span = 16,
                               sc_gc = Num (1/2), sc_serial_no = Num 0\<rparr>],
                  ss_n := 1, num_scores_seen := 1, max_t := 16\<rparr>,
             serial_no := Num 1\<rparr>))
   \<and> (\<not> ss_n (the_score_set ((example_state 1)
            \<lparr>the_score_set := (example_score_set 1)\<lparr>ss_n := 1, num_scores_seen := 1\<rparr>,
             prng := index_prng 1 [0]\<rparr>))
          < max_scores_saved (the_score_set ((example_state 1)
            \<lparr>the_score_set := (example_score_set 1)\<lparr>ss_n := 1, num_scores_seen := 1\<rparr>,
             prng := index_prng 1 [0]\<rparr>))
    \<and> mt_out (index_prng 1 [0]) (mt_pos (index_prng 1 [0])) = 0
    \<and> save_score example_env (example_window True) (example_raw_match 5 20 (Num 12)) (Num 10)
         ((example_state 1)
            \<lparr>the_score_set := (example_score_set 1)\<lparr>ss_n := 1, num_scores_seen := 1\<rparr>,
             prng := index_prng 1 [0]\<rparr>)
       = (Num (1/2),
          (example_state 1)
            \<lparr>the_score_set :=
               (example_score_set 1)
                 \<lparr>scores := [\<lparr>sc_s = Num 10, sc_t = 16, sc_nhits = 2, sc_span = 16,
                               sc_gc = Num (1/2), sc_serial_no = Num 0\<rparr>],
                  ss_n := 1, num_scores_seen := 2, max_t := 16\<rparr>,
             prng := (index_prng 1 [0])\<lparr>mt_pos := 1\<rparr>,
             serial_no := Num 1\<rparr>))
   \<and> (mt_out example_prng (mt_pos example_prng) = 1/2
    \<and> \<lfloor>real_of_int (1 + 1) * (1/2::real)\<rfloor> = 1
    \<and> save_score example_env (example_window True) (example_raw_match 5 20 (Num 12)) (Num 10)
         ((example_state 1)
            \<lparr>the_score_set := (example_score_set 1)\<lparr>ss_n := 1, num_scores_seen := 1\<rparr>\<rparr>)
       = (Num (1/2),
          (example_state 1)
            \<lparr>the_score_set := (example_score_set 1)\<lparr>ss_n := 1, num_scores_seen := 2\<rparr>,
             prng := example_prng\<lparr>mt_pos := 1\<rparr>\<rparr>))
   \<and> (dgt (dsub (get_score ((example_raw_match 5 20 (Num 12))\<lparr>get_nhits := 0\<rparr>)) (Num 2))
          (LOG_SMALL example_env)
    \<and> dgt (dsub (get_score ((example_raw_match 30 50 (Num 12))\<lparr>get_nhits := 1\<rparr>)) (Num 2))
          (LOG_SMALL example_env)
    \<and> get_nhits ([(example_raw_match 5 20 (Num 12))\<lparr>get_nhits := 0\<rparr>,
                    (example_raw_match 30 50 (Num 12))\<lparr>get_nhits := 1\<rparr>] ! 0) = int 0
    \<and> get_nhits ([(example_raw_match 5 20 (Num 12))\<lparr>get_nhits := 0\<rparr>,
                    (example_raw_match 30 50 (Num 12))\<lparr>get_nhits := 1\<rparr>] ! 1) = int 1
    \<and> (1::nat) + 1 < 2147483648
    \<and> num_scores_seen (the_score_set (record_scores example_env (Num 2) (example_window True)
          [(example_raw_match 5 20 (Num 12))\<lparr>get_nhits := 0\<rparr>,
           (example_raw_match 30 50 (Num 12))\<lparr>get_nhits := 1\<rparr>] (example_state 1))) = 2
    \<and> ss_n (the_score_set (record_scores example_env (Num 2) (example_window True)
          [(example_raw_match 5 20 (Num 12))\<lparr>get_nhits := 0\<rparr>,
           (example_raw_match 30 50 (Num 12))\<lparr>get_nhits := 1\<rparr>] (example_state 1))) = 1
    \<and> length (filter (\<lambda>js. int 0 \<in> sc_nhits ` set (scores (the_score_set
                   (record_scores example_env (Num 2) (example_window True)
                      [(example_raw_match 5 20 (Num 12))\<lparr>get_nhits := 0\<rparr>,
                       (example_raw_match 30 50 (Num 12))\<lparr>get_nhits := 1\<rparr>]
                      ((example_state 1)\<lparr>prng := index_prng 1 js\<rparr>)))))
           (all_draws 1 1)) * (1 + 1)
         = 1 * length (all_draws 1 1))
   \<and> (is_complete_seq (example_window True)
    \<and> get_start_match (example_raw_match 5 20 (Num 12)) \<noteq> start_pos (example_state 1)
    \<and> (\<exists>c st'. process_match example_env (Num 2) (example_window True)
                   (example_raw_match 5 20 (Num 12)) (example_state 1) = Some (c, st')
          \<and> the_score_set st'
              = (example_score_set 1)
                  \<lparr>scores := [\<lparr>sc_s = Num 10, sc_t = 16, sc_nhits = 2, sc_span = 16,
                                sc_gc = Num (1/2), sc_serial_no = Num 0\<rparr>],
                   ss_n := 1, num_scores_seen := 1, max_t := 16\<rparr>
          \<and> serial_no st' = Num 1))
   \<and> (none_skipped (start_pos (example_state 1))
          [(example_raw_match 5 20 (Num 12))\<lparr>get_nhits := 0\<rparr>,
           (example_raw_match 30 50 (Num 12))\<lparr>get_nhits := 1\<rparr>]
    \<and> (\<exists>st'. match_loop example_env (Num 2) (example_window True)
                 [(example_raw_match 5 20 (Num 12))\<lparr>get_nhits := 0\<rparr>,
                  (example_raw_match 30 50 (Num 12))\<lparr>get_nhits := 1\<rparr>] (example_state 1)
               = Some st'
          \<and> num_scores_seen (the_score_set st') = 2 \<and> ss_n (the_score_set st') = 1))"
proof -
  let ?e = example_env
  let ?w = "example_window True"
  let ?pm = "example_raw_match 5 20 (Num 12)"
  let ?sa = "example_state 1"
  let ?sb = "(example_state 1)\<lparr>the_score_set := (example_score_set 1)\<lparr>ss_n := 1, num_scores_seen := 1\<rparr>,
               prng := index_prng 1 [0]\<rparr>"
  let ?sc = "(example_state 1)\<lparr>the_score_set := (example_score_set 1)\<lparr>ss_n := 1, num_scores_seen := 1\<rparr>\<rparr>"
  let ?pms = "[(example_raw_match 5 20 (Num 12))\<lparr>get_nhits := 0\<rparr>,
              (example_raw_match 30 50 (Num 12))\<lparr>get_nhits := 1\<rparr>]"
  have v: "dgt (Num 10) (LOG_SMALL ?e)" by (simp add: example_env_def)
  have sa: "ss_n (the_score_set ?sa) = 0" "num_scores_seen (the_score_set ?sa) = 0"
    "max_scores_saved (the_score_set ?sa) = 1" "length (scores (the_score_set ?sa)) = 1"
    "the_score_set ?sa = example_score_set 1" "serial_no ?sa = Num 0"
    by (simp_all add: example_state_def scan_init_def example_score_set_def)
  have sb: "ss_n (the_score_set ?sb) = 1" "num_scores_seen (the_score_set ?sb) = 1"
    "max_scores_saved (the_score_set ?sb) = 1" "mt_out (prng ?sb) (mt_pos (prng ?sb)) = 0"
    "serial_no ?sb = Num 0"
    by (simp_all add: example_score_set_def index_prng_def example_state_def scan_init_def)
  have sc: "ss_n (the_score_set ?sc) = 1" "num_scores_seen (the_score_set ?sc) = 1"
    "max_scores_saved (the_score_set ?sc) = 1" "mt_out (prng ?sc) (mt_pos (prng ?sc)) = 1/2"
    "prng ?sc = example_prng"
    by (simp_all add: example_score_set_def example_prng_def example_state_def scan_init_def)
  have big: "\<forall>pm\<in>set ?pms. dgt (dsub (get_score pm) (Num 2)) (LOG_SMALL ?e)"
    by (simp add: example_raw_match_def example_env_def)
  have tag: "\<forall>i<length ?pms. get_nhits (?pms ! i) = int i"
    by (simp add: less_Suc_eq numeral_2_eq_2)
  have gc: "ddiv (dsub (get_seq_gc ?w (min (w_seq_length ?w - 1) (get_end_match ?pm + 500)))
                       (get_seq_gc ?w (max 0 (get_start_match ?pm - 500))))
              (Num (real_of_int (min (w_seq_length ?w - 1) (get_end_match ?pm + 500)
                                  - max 0 (get_start_match ?pm - 500)))) = Num (1/2)"
    by (simp add: example_window_def example_raw_match_def)
  have pmf: "get_match_seq_length ?pm = 16" "get_nhits ?pm = 2"
    "get_end_match ?pm - get_start_match ?pm + 1 = 16"
    by (simp_all add: example_raw_match_def)
  note ta = reservoir_update_uniform [where v = "Num 10" and e = ?e and st = ?sa and w = ?w
      and pm = ?pm and pms = ?pms and dp = "Num 2" and k = 1 and d = 1 and a = 0]
  note tb = reservoir_update_uniform [where v = "Num 10" and e = ?e and st = ?sb and w = ?w
      and pm = ?pm and pms = ?pms and dp = "Num 2" and k = 1 and d = 1 and a = 0]
  note tc = reservoir_update_uniform [where v = "Num 10" and e = ?e and st = ?sc and w = ?w
      and pm = ?pm and pms = ?pms and dp = "Num 2" and k = 1 and d = 1 and a = 0]
  have c1: "save_score ?e ?w ?pm (Num 10) ?sa
       = (Num (1/2),
          ?sa\<lparr>the_score_set :=
               (example_score_set 1)
                 \<lparr>scores := [\<lparr>sc_s = Num 10, sc_t = 16, sc_nhits = 2, sc_span = 16,
                               sc_gc = Num (1/2), sc_serial_no = Num 0\<rparr>],
                  ss_n := 1, num_scores_seen := 1, max_t := 16\<rparr>,
             serial_no := Num 1\<rparr>)"
  proof -
    from ta v sa(1,2,3) have "(let ss = the_score_set ?sa;
            start' = max 0 (get_start_match ?pm - 500);
            end' = min (w_seq_length ?w - 1) (get_end_match ?pm + 500);
            gc' = ddiv (dsub (get_seq_gc ?w end') (get_seq_gc ?w start'))
                    (Num (real_of_int (end' - start')));
            entry = \<lparr>sc_s = Num 10, sc_t = get_match_seq_length ?pm, sc_nhits = get_nhits ?pm,
                     sc_span = get_end_match ?pm - get_start_match ?pm + 1,
                     sc_gc = gc', sc_serial_no = serial_no ?sa\<rparr>
        in save_score ?e ?w ?pm (Num 10) ?sa =
             (gc', ?sa\<lparr>the_score_set :=
                        ss\<lparr>scores := (scores ss)[ss_n ss := entry],
                           ss_n := ss_n ss + 1,
                           num_scores_seen := num_scores_seen ss + 1,
                           max_t := max (max_t ss) (get_match_seq_length ?pm)\<rparr>,
                      serial_no := dadd (serial_no ?sa) (Num 1)\<rparr>))"
      by simp
    then show ?thesis
      unfolding Let_def gc pmf sa(5,6)
      by (simp add: example_score_set_def example_score_entry_def)
  qed
  have c2: "save_score ?e ?w ?pm (Num 10) ?sb
       = (Num (1/2),
          ?sa\<lparr>the_score_set :=
               (example_score_set 1)
                 \<lparr>scores := [\<lparr>sc_s = Num 10, sc_t = 16, sc_nhits = 2, sc_span = 16,
                               sc_gc = Num (1/2), sc_serial_no = Num 0\<rparr>],
                  ss_n := 1, num_scores_seen := 2, max_t := 16\<rparr>,
             prng := (index_prng 1 [0])\<lparr>mt_pos := 1\<rparr>,
             serial_no := Num 1\<rparr>)"
  proof -
    from tb v sb(1,2,3,4) have "(let ss = the_score_set ?sb;
            N = num_scores_seen ss + 1;
            score_index = \<lfloor>real_of_int N * mt_out (prng ?sb) (mt_pos (prng ?sb))\<rfloor>;
            start' = max 0 (get_start_match ?pm - 500);
            end' = min (w_seq_length ?w - 1) (get_end_match ?pm + 500);
            gc' = ddiv (dsub (get_seq_gc ?w end') (get_seq_gc ?w start'))
                    (Num (real_of_int (end' - start')));
            entry = \<lparr>sc_s = Num 10, sc_t = get_match_seq_length ?pm, sc_nhits = get_nhits ?pm,
                     sc_span = get_end_match ?pm - get_start_match ?pm + 1,
                     sc_gc = gc', sc_serial_no = serial_no ?sb\<rparr>;
            prng' = (prng ?sb)\<lparr>mt_pos := Suc (mt_pos (prng ?sb))\<rparr>
        in save_score ?e ?w ?pm (Num 10) ?sb =
             (gc', if score_index < int (max_scores_saved ss)
                   then ?sb\<lparr>the_score_set :=
                             ss\<lparr>scores := (scores ss)[nat score_index := entry],
                                num_scores_seen := N,
                                max_t := max (max_t ss) (get_match_seq_length ?pm)\<rparr>,
                           prng := prng',
                           serial_no := dadd (serial_no ?sb) (Num 1)\<rparr>
                   else ?sb\<lparr>the_score_set := ss\<lparr>num_scores_seen := N\<rparr>, prng := prng'\<rparr>))"
      by simp
    then show ?thesis
      unfolding Let_def gc pmf sb(4,5)
      by (simp add: example_score_set_def example_score_entry_def index_prng_def)
  qed
  have c3: "save_score ?e ?w ?pm (Num 10) ?sc
       = (Num (1/2),
          ?sa\<lparr>the_score_set := (example_score_set 1)\<lparr>ss_n := 1, num_scores_seen := 2\<rparr>,
             prng := example_prng\<lparr>mt_pos := 1\<rparr>\<rparr>)"
  proof -
    from tc v sc(1,2,3,4) have "(let ss = the_score_set ?sc;
            N = num_scores_seen ss + 1;
            score_index = \<lfloor>real_of_int N * mt_out (prng ?sc) (mt_pos (prng ?sc))\<rfloor>;
            start' = max 0 (get_start_match ?pm - 500);
            end' = min (w_seq_length ?w - 1) (get_end_match ?pm + 500);
            gc' = ddiv (dsub (get_seq_gc ?w end') (get_seq_gc ?w start'))
                    (Num (real_of_int (end' - start')));
            entry = \<lparr>sc_s = Num 10, sc_t = get_match_seq_length ?pm, sc_nhits = get_nhits ?pm,
                     sc_span = get_end_match ?pm - get_start_match ?pm + 1,
                     sc_gc = gc', sc_serial_no = serial_no ?sc\<rparr>;
            prng' = (prng ?sc)\<lparr>mt_pos := Suc (mt_pos (prng ?sc))\<rparr>
        in save_score ?e ?w ?pm (Num 10) ?sc =
             (gc', if score_index < int (max_scores_saved ss)
                   then ?sc\<lparr>the_score_set :=
                             ss\<lparr>scores := (scores ss)[nat score_index := entry],
                                num_scores_seen := N,
                                max_t := max (max_t ss) (get_match_seq_length ?pm)\<rparr>,
                           prng := prng',
                           serial_no := dadd (serial_no ?sc) (Num 1)\<rparr>
                   else ?sc\<lparr>the_score_set := ss\<lparr>num_scores_seen := N\<rparr>, prng := prng'\<rparr>))"
      by simp
    then show ?thesis
      unfolding Let_def gc pmf sc(4)
      by (simp add: example_score_set_def example_prng_def example_state_def scan_init_def)
  qed
  have fl: "\<lfloor>real_of_int (1 + 1) * (1/2::real)\<rfloor> = 1" by simp
  have c4: "num_scores_seen (the_score_set (record_scores ?e (Num 2) ?w ?pms ?sa)) = 2
      \<and> ss_n (the_score_set (record_scores ?e (Num 2) ?w ?pms ?sa)) = 1"
    using ta big sa(1,2,3) by simp
  have c5: "length (filter (\<lambda>js. int 0 \<in> sc_nhits ` set (scores (the_score_set
                   (record_scores ?e (Num 2) ?w ?pms (?sa\<lparr>prng := index_prng 1 js\<rparr>)))))
           (all_draws 1 1)) * (1 + 1)
         = 1 * length (all_draws 1 1)"
    using ta sa(1,2,3,4) big tag by simp
  have u0: "mt_out (index_prng 1 [0]) (mt_pos (index_prng 1 [0])) = 0"
    by (simp add: index_prng_def)
  have u1: "mt_out example_prng (mt_pos example_prng) = 1/2"
    by (simp add: example_prng_def)
  have w5: "is_complete_seq ?w" "get_start_match ?pm \<noteq> start_pos ?sa"
    by (simp_all add: example_window_def example_raw_match_def example_state_def scan_init_def)
  have c6: "\<exists>c st'. process_match ?e (Num 2) ?w ?pm ?sa = Some (c, st')
          \<and> the_score_set st'
              = (example_score_set 1)
                  \<lparr>scores := [\<lparr>sc_s = Num 10, sc_t = 16, sc_nhits = 2, sc_span = 16,
                                sc_gc = Num (1/2), sc_serial_no = Num 0\<rparr>],
                   ss_n := 1, num_scores_seen := 1, max_t := 16\<rparr>
          \<and> serial_no st' = Num 1"
  proof -
    obtain c st' where pr: "process_match ?e (Num 2) ?w ?pm ?sa = Some (c, st')"
      using process_match_total by blast
    have sv: "save_score ?e ?w ?pm (dsub (get_score ?pm) (Num 2)) (?sa\<lparr>start_pos := get_end_match ?pm + 1\<rparr>)
          = (Num (1/2),
             ?sa\<lparr>start_pos := 21,
                  the_score_set :=
               (example_score_set 1)
                 \<lparr>scores := [\<lparr>sc_s = Num 10, sc_t = 16, sc_nhits = 2, sc_span = 16,
                               sc_gc = Num (1/2), sc_serial_no = Num 0\<rparr>],
                  ss_n := 1, num_scores_seen := 1, max_t := 16\<rparr>,
             serial_no := Num 1\<rparr>)"
      by (simp add: example_run_defs)
    note td = reservoir_update_uniform [where v = "Num 10" and e = ?e and st = ?sa and w = ?w
      and pm = ?pm and pms = ?pms and dp = "Num 2" and k = 1 and d = 1 and a = 0 and c = c
      and st' = st']
    from td w5 pr have "the_score_set st'
          = the_score_set (snd (save_score ?e ?w ?pm (dsub (get_score ?pm) (Num 2))
                                  (?sa\<lparr>start_pos := get_end_match ?pm + 1\<rparr>)))
        \<and> serial_no st'
          = serial_no (snd (save_score ?e ?w ?pm (dsub (get_score ?pm) (Num 2))
                              (?sa\<lparr>start_pos := get_end_match ?pm + 1\<rparr>)))"
      by blast
    then have "the_score_set st'
              = (example_score_set 1)
                  \<lparr>scores := [\<lparr>sc_s = Num 10, sc_t = 16, sc_nhits = 2, sc_span = 16,
                                sc_gc = Num (1/2), sc_serial_no = Num 0\<rparr>],
                   ss_n := 1, num_scores_seen := 1, max_t := 16\<rparr>
          \<and> serial_no st' = Num 1"
      by (simp only: sv snd_conv) simp
    with pr show ?thesis by blast
  qed
  have w6: "none_skipped (start_pos ?sa) ?pms"
    by (simp add: example_raw_match_def example_state_def scan_init_def)
  have c7: "\<exists>st'. match_loop ?e (Num 2) ?w ?pms ?sa = Some st'
          \<and> num_scores_seen (the_score_set st') = 2 \<and> ss_n (the_score_set st') = 1"
  proof -
    from ta w5(1) w6 obtain st' where ml: "match_loop ?e (Num 2) ?w ?pms ?sa = Some st'"
      and ss: "the_score_set st' = the_score_set (record_scores ?e (Num 2) ?w ?pms ?sa)"
      by blast
    from ss c4 have "num_scores_seen (the_score_set st') = 2 \<and> ss_n (the_score_set st') = 1"
      by simp
    with ml show ?thesis by blast
  qed
  from v sa(1,2,3) sb(1,3) big tag c1 c2 c3 c4 c5 fl u0 u1 w5 c6 w6 c7 show ?thesis
    by (intro conjI) simp_all
qed


end
